theory Spec2Isabelle
  imports
    Complex_Main
    "HOL-Library.AList"
    "HOL-Library.Char_ord"
    "HOL-Library.List_Lexorder"
    "HOL-Library.Log_Nat"
    "HOL-Library.Multiset"
begin

section \<open>Data model\<close>

text \<open>
  JavaScript values are embedded as follows. A \<^verbatim>\<open>number\<close> that holds a count, a field id
  or a short document id is an \<^typ>\<open>int\<close>, a score is a \<^typ>\<open>real\<close>, and arithmetic on them
  rounds as IEEE doubles do (below). A built-in \<^verbatim>\<open>Map<K, V>\<close> is an association list in
  insertion order with one entry per key: \<^verbatim>\<open>get\<close> is \<^const>\<open>map_of\<close>, \<^verbatim>\<open>set\<close> replaces the value of a
  present key in place and appends a new key, \<^verbatim>\<open>delete\<close> drops the entry, \<^verbatim>\<open>size\<close> is the
  length. A plain object used as a dictionary (\<^verbatim>\<open>Record<string, V>\<close>) is a partial map
  from property names. Mutation of a \<^verbatim>\<open>Map\<close> that is reachable from the index is written
  back into the index, since the index owns its posting maps and nothing else aliases them.
\<close>

type_synonym ('k, 'v) jsMap = "('k \<times> 'v) list"

abbreviation Map_get :: "('k, 'v) jsMap \<Rightarrow> 'k \<Rightarrow> 'v option" where
  "Map_get m key \<equiv> map_of m key"

abbreviation Map_set :: "'k \<Rightarrow> 'v \<Rightarrow> ('k, 'v) jsMap \<Rightarrow> ('k, 'v) jsMap" where
  "Map_set key v m \<equiv> AList.update key v m"

abbreviation Map_delete :: "'k \<Rightarrow> ('k, 'v) jsMap \<Rightarrow> ('k, 'v) jsMap" where
  "Map_delete key m \<equiv> AList.delete key m"

abbreviation Map_size :: "('k, 'v) jsMap \<Rightarrow> nat" where
  "Map_size m \<equiv> length m"

subsection \<open>Arithmetic on counts\<close>

text \<open>
  A count is a double that holds an integer. Doubles of magnitude up to \<open>2 ^ 53\<close> are the
  integers themselves; from there on they are the multiples of \<^term>\<open>spacing a\<close>, where \<open>a\<close> is
  the magnitude. The sum or the difference of two counts is the double nearest to the exact
  result, a tie going to the even significand. Adding or subtracting 1 cannot overflow (the
  result is at most the largest finite double); where two large counts are added, a result of
  magnitude \<open>2 ^ 1024\<close> stands for an infinity.
\<close>

fun spacing :: "nat \<Rightarrow> nat" where
  "spacing a = (if a < 2 ^ 53 then 1 else 2 * spacing (a div 2))"

declare spacing.simps [simp del]

definition toDouble :: "int \<Rightarrow> int" where
  "toDouble x =
     (let q = int (spacing (nat \<bar>x\<bar>));
          m = \<bar>x\<bar> div q;
          r = \<bar>x\<bar> mod q;
          m' = (if 2 * r < q then m else if q < 2 * r then m + 1
                else if even m then m else m + 1)
      in sgn x * (m' * q))"

definition number_add :: "int \<Rightarrow> int \<Rightarrow> int" where
  "number_add x y = toDouble (x + y)"

definition number_subtract :: "int \<Rightarrow> int \<Rightarrow> int" where
  "number_subtract x y = toDouble (x - y)"

subsection \<open>Arithmetic on numbers\<close>

text \<open>
  A number that need not be an integer (a score, a quotient of counts) is a real. The finite
  doubles are the multiples of \<open>2 ^ (e - 52)\<close> of magnitude from \<open>2 ^ e\<close> to
  \<open>2 ^ (e + 1)\<close>, for the exponents \<open>e\<close> from \<open>- 1022\<close> to \<open>1023\<close>, and, below, the multiples
  of \<open>2 ^ - 1074\<close> (the subnormal range). A real of magnitude \<open>2 ^ 1024\<close> stands for the
  infinity of its sign.

  \<open>pow2 k\<close> is 2 to the power \<open>k\<close>, for an integer \<open>k\<close>. \<open>exponent x\<close> is the exponent of a
  positive real, the \<open>e\<close> with \<open>2 ^ e \<le> x < 2 ^ (e + 1)\<close>, found from the bit length of the
  integer part of \<open>x\<close>, or of \<open>1 / x\<close> when \<open>x\<close> is below 1. \<open>roundEven\<close> rounds to the
  nearest integer, a tie going to the even one. \<open>roundNumber x\<close> is the double nearest to
  \<open>x\<close>, a tie going to the even significand, or the infinity when that is out of range.
\<close>

definition pow2 :: "int \<Rightarrow> real" where
  "pow2 k = (if 0 \<le> k then 2 ^ nat k else 1 / 2 ^ nat (- k))"

definition exponent :: "real \<Rightarrow> int" where
  "exponent x = (if 1 \<le> x then bitlen \<lfloor>x\<rfloor> - 1 else - bitlen (\<lceil>1 / x\<rceil> - 1))"

definition roundEven :: "real \<Rightarrow> int" where
  "roundEven x =
     (let m = \<lfloor>x\<rfloor>; r = x - real_of_int m
      in if r < 1 / 2 then m else if 1 / 2 < r then m + 1
         else if even m then m else m + 1)"

definition roundNumber :: "real \<Rightarrow> real" where
  "roundNumber x =
     (if x = 0 then 0
      else
        let u = pow2 (max (exponent \<bar>x\<bar>) (- 1022) - 52);
            r = real_of_int (roundEven (\<bar>x\<bar> / u)) * u
        in sgn x * min r (2 ^ 1024))"

text \<open>The operator \<^verbatim>\<open>*\<close> on two numbers.\<close>

definition number_multiply :: "real \<Rightarrow> real \<Rightarrow> real" where
  "number_multiply x y = roundNumber (x * y)"

text \<open>The operator \<^verbatim>\<open>/\<close> on two counts: a finite double, or an infinity or \<^verbatim>\<open>NaN\<close>, which
  IEEE arithmetic returns instead of failing. A zero divisor gives an infinity, or \<^verbatim>\<open>NaN\<close>
  for \<^verbatim>\<open>0 / 0\<close>. (The sign of a zero is not kept.)\<close>

datatype quotient = Finite real | NaN | PlusInfinity | MinusInfinity

definition divide_number :: "int \<Rightarrow> int \<Rightarrow> quotient" where
  "divide_number x y =
     (if y = 0 then (if x = 0 then NaN else if 0 < x then PlusInfinity else MinusInfinity)
      else
        let r = roundNumber (real_of_int x / real_of_int y)
        in if 2 ^ 1024 \<le> \<bar>r\<bar> then (if 0 < r then PlusInfinity else MinusInfinity)
           else Finite r)"

subsection \<open>The term dictionary\<close>

text \<open>\<^verbatim>\<open>DocumentTermFrequencies\<close> maps a short document id to a term frequency;
  \<^verbatim>\<open>FieldTermData = Map<number, DocumentTermFrequencies>\<close> maps a field id to it.\<close>

type_synonym DocumentTermFrequencies = "(int, int) jsMap"
type_synonym FieldTermData = "(int, DocumentTermFrequencies) jsMap"

text \<open>
  Modelled from the spec: the class \<^verbatim>\<open>SearchableMap\<close> (the radix tree of section 4.1) is
  not among the sources. It is an associative map keyed by strings; \<^verbatim>\<open>get\<close>, \<^verbatim>\<open>has\<close>,
  \<^verbatim>\<open>set\<close> and \<^verbatim>\<open>delete\<close> are the standard operations, \<^verbatim>\<open>fetch(key, factory)\<close>
  returns the existing value or installs and returns \<^verbatim>\<open>factory()\<close>, and iteration yields
  each stored key once, in lexicographic key order. The representation is an association
  list with one entry per key; only iteration sorts it.
\<close>

type_synonym 'v SearchableMap = "(string \<times> 'v) list"

definition sm_get :: "'v SearchableMap \<Rightarrow> string \<Rightarrow> 'v option" where
  "sm_get m key = map_of m key"

definition sm_has :: "'v SearchableMap \<Rightarrow> string \<Rightarrow> bool" where
  "sm_has m key = (map_of m key \<noteq> None)"

definition sm_set :: "string \<Rightarrow> 'v \<Rightarrow> 'v SearchableMap \<Rightarrow> 'v SearchableMap" where
  "sm_set key v m = AList.update key v m"

definition sm_delete :: "string \<Rightarrow> 'v SearchableMap \<Rightarrow> 'v SearchableMap" where
  "sm_delete key m = AList.delete key m"

definition sm_fetch :: "string \<Rightarrow> 'v \<Rightarrow> 'v SearchableMap \<Rightarrow> 'v \<times> 'v SearchableMap" where
  "sm_fetch key initial m =
     (case map_of m key of
        Some v \<Rightarrow> (v, m)
      | None \<Rightarrow> (initial, AList.update key initial m))"

definition sm_entries :: "'v SearchableMap \<Rightarrow> (string \<times> 'v) list" where
  "sm_entries m = sort_key fst m"

text \<open>Modelled from the spec: \<^verbatim>\<open>createMap\<close> of \<^verbatim>\<open>utils.js\<close> is not among the sources; it is
  the factory handed to \<^verbatim>\<open>fetch\<close>, which installs a posting chain lazily, that is, an
  empty map.\<close>

definition createMap :: "('k, 'v) jsMap" where
  "createMap = []"

subsection \<open>Options\<close>

record BM25Params =
  bm25_k :: real
  bm25_b :: real
  bm25_d :: real

type_synonym MatchInfo = "(string \<times> string list) list"

text \<open>A search result is the object built by \<^verbatim>\<open>search\<close>: the four properties of the object
  literal and the properties that \<^verbatim>\<open>Object.assign\<close> copies onto it from the stored fields
  of the document. The properties of other names than the four are kept together in the
  component \<open>stored\<close> (\<open>None\<close> when the document has no stored fields).\<close>

record ('id, 'sf) SearchResult =
  id' :: "'id option"
  score :: real
  terms :: "string list"
  match :: MatchInfo
  stored :: "'sf option"

text \<open>The stored fields of a document are an object of type \<^verbatim>\<open>Index\<close>, whose property names
  are the field names listed in the option \<^verbatim>\<open>storeFields\<close>. Nothing keeps them apart from
  \<^verbatim>\<open>id\<close>, \<^verbatim>\<open>score\<close>, \<^verbatim>\<open>terms\<close> and \<^verbatim>\<open>match\<close>: a stored field of one of these names
  is a component of its own here, present or not, with the type that
  \<^verbatim>\<open>SearchResult = Index & {id, terms, queryTerms, score, match}\<close> gives the property; the
  stored fields of other names are the component \<open>sf_others\<close>.\<close>

record ('id, 'sf) StoredFields =
  sf_id :: "'id option"
  sf_score :: "real option"
  sf_terms :: "string list option"
  sf_match :: "MatchInfo option"
  sf_others :: 'sf

text \<open>Of \<^verbatim>\<open>SearchOptions\<close> the model keeps the options that the modelled code reads or
  that the claims mention; the remaining ones are hooks that only query execution uses.\<close>

record ('id, 'sf) SearchOptions =
  so_fields :: "string list option"
  so_filter :: "(('id, 'sf) SearchResult \<Rightarrow> bool) option"
  so_prefix :: "bool option"
  so_fuzzy :: "real option"
  so_maxFuzzy :: "int option"
  so_combineWith :: "string option"
  so_bm25 :: "BM25Params option"

text \<open>\<^verbatim>\<open>AutoVacuumOptions = VacuumOptions & VacuumConditions\<close>.\<close>

record VacuumConditions =
  minDirtCount :: "int option"
  minDirtFactor :: "real option"

record AutoVacuumOptions = VacuumConditions +
  batchSize :: "int option"
  batchWait :: "int option"

datatype autoVacuumArg = AutoVacuumBool bool | AutoVacuumWith AutoVacuumOptions

record ('id, 'sf) SearchIndexOptions =
  o_fields :: "string list option"
  o_idField :: "string option"
  o_storeFields :: "string list option"
  o_autoVacuum :: "autoVacuumArg option"
  o_searchOptions :: "('id, 'sf) SearchOptions option"
  o_autoSuggestOptions :: "('id, 'sf) SearchOptions option"

subsection \<open>The index state\<close>

datatype LogLevel = LevelDebug | LevelInfo | LevelWarn | LevelError

datatype message = DocumentChanged int int string

type_synonym logCall = "LogLevel \<times> message \<times> string option"

text \<open>The fields of class \<^verbatim>\<open>SearchIndex\<close>; the leading underscore of the source names is
  written \<open>s_\<close>. The component \<open>s_logged\<close> is the trace of the calls made to the host's
  \<^verbatim>\<open>_options.logger\<close>, oldest first.\<close>

record ('id, 'sf) SearchIndex =
  s_options :: "('id, 'sf) SearchIndexOptions"
  s_index :: "FieldTermData SearchableMap"
  s_documentCount :: int
  s_documentIds :: "(int, 'id) jsMap"
  s_idToShortId :: "('id, int) jsMap"
  s_fieldIds :: "string \<rightharpoonup> int"
  s_fieldLength :: "(int, int list) jsMap"
  s_avgFieldLength :: "real list"
  s_nextId :: int
  s_storedFields :: "(int, ('id, 'sf) StoredFields) jsMap"
  s_dirtCount :: int
  s_currentVacuum :: "unit option"
  s_enqueuedVacuum :: "unit option"
  s_enqueuedVacuumConditions :: "VacuumConditions option"
  s_logged :: "logCall list"

datatype error = Error string | TypeError

section \<open>Adding and removing a term\<close>

text \<open>Modelled from the spec: \<^verbatim>\<open>warnDocumentChanged\<close> of \<^verbatim>\<open>warning.js\<close> is not among the
  sources. It signals \<^verbatim>\<open>DocumentChanged\<close> through the logger, at level \<^verbatim>\<open>warn\<close> with the
  code \<^verbatim>\<open>version_conflict\<close>, and touches nothing else.\<close>

definition warnDocumentChanged ::
  "('id, 'sf) SearchIndex \<Rightarrow> int \<Rightarrow> int \<Rightarrow> string \<Rightarrow> ('id, 'sf) SearchIndex" where
  "warnDocumentChanged searchIndex shortDocumentId fieldId term =
     searchIndex\<lparr>s_logged := s_logged searchIndex @
       [(LevelWarn, DocumentChanged shortDocumentId fieldId term, Some ''version_conflict'')]\<rparr>"

text \<open>\<^verbatim>\<open>addTerm\<close> (\<^verbatim>\<open>term.ts\<close>; both copies among the sources agree, \<^verbatim>\<open>docs || 0\<close> and
  \<^verbatim>\<open>docs ?? 0\<close> being the same on counts).\<close>

definition addTerm ::
  "int \<Rightarrow> int \<Rightarrow> string \<Rightarrow> ('id, 'sf) SearchIndex \<Rightarrow> ('id, 'sf) SearchIndex" where
  "addTerm fieldId documentId term searchIndex =
     (let (indexData, idx) = sm_fetch term createMap (s_index searchIndex)
      in case Map_get indexData fieldId of
           None \<Rightarrow>
             (let fieldIndex = Map_set documentId 1 [];
                  indexData' = Map_set fieldId fieldIndex indexData
              in searchIndex\<lparr>s_index := sm_set term indexData' idx\<rparr>)
         | Some fieldIndex \<Rightarrow>
             (let docs = Map_get fieldIndex documentId;
                  fieldIndex' =
                    Map_set documentId
                      (number_add (case docs of None \<Rightarrow> 0 | Some n \<Rightarrow> n) 1) fieldIndex
              in searchIndex\<lparr>s_index :=
                   sm_set term (Map_set fieldId fieldIndex' indexData) idx\<rparr>))"

text \<open>\<^verbatim>\<open>removeTerm\<close> (both copies among the sources agree). \<open>idx\<close> is the dictionary after
  \<^verbatim>\<open>fetch\<close>, \<open>s1\<close> the index after the three-way branch. The final
  \<^verbatim>\<open>_index.get(term)!.size\<close> dereferences the looked-up value, so a missing entry there is
  the \<^const>\<open>TypeError\<close> branch.\<close>

definition removeTerm ::
  "int \<Rightarrow> int \<Rightarrow> string \<Rightarrow> ('id, 'sf) SearchIndex \<Rightarrow> error + ('id, 'sf) SearchIndex" where
  "removeTerm fieldId documentId term searchIndex =
     (if \<not> sm_has (s_index searchIndex) term
      then Inr (warnDocumentChanged searchIndex documentId fieldId term)
      else
        let (indexData, idx) = sm_fetch term createMap (s_index searchIndex);
            fieldIndex = Map_get indexData fieldId;
            amount = (case fieldIndex of None \<Rightarrow> None | Some fi \<Rightarrow> Map_get fi documentId);
            s0 = searchIndex\<lparr>s_index := idx\<rparr>;
            s1 =
              (case fieldIndex of
                 None \<Rightarrow> warnDocumentChanged s0 documentId fieldId term
               | Some fi \<Rightarrow>
                   (case amount of
                      None \<Rightarrow> warnDocumentChanged s0 documentId fieldId term
                    | Some a \<Rightarrow>
                        if a \<le> 1 then
                          if Map_size fi \<le> 1
                          then s0\<lparr>s_index := sm_set term (Map_delete fieldId indexData) idx\<rparr>
                          else s0\<lparr>s_index :=
                                 sm_set term (Map_set fieldId (Map_delete documentId fi) indexData)
                                   idx\<rparr>
                        else s0\<lparr>s_index :=
                               sm_set term
                                 (Map_set fieldId (Map_set documentId (number_subtract a 1) fi)
                                    indexData)
                                 idx\<rparr>))
        in case sm_get (s_index s1) term of
             None \<Rightarrow> Inl TypeError
           | Some m \<Rightarrow>
               Inr (if Map_size m = 0 then s1\<lparr>s_index := sm_delete term (s_index s1)\<rparr> else s1))"

text \<open>A posting: the frequency stored for a term, a field id and a short document id.\<close>

definition posting :: "FieldTermData SearchableMap \<Rightarrow> string \<Rightarrow> int \<Rightarrow> int \<Rightarrow> int option" where
  "posting idx term fieldId documentId =
     (case sm_get idx term of
        None \<Rightarrow> None
      | Some indexData \<Rightarrow>
          (case Map_get indexData fieldId of
             None \<Rightarrow> None
           | Some fieldIndex \<Rightarrow> Map_get fieldIndex documentId))"

text \<open>The invariant of the data model, layer by layer: no map lists a key twice, no
  posting map and no field map is empty, and every frequency is a positive count.\<close>

definition freqs_inv :: "DocumentTermFrequencies \<Rightarrow> bool" where
  "freqs_inv fi \<longleftrightarrow> fi \<noteq> [] \<and> distinct (map fst fi) \<and> list_all (\<lambda>(d, n). 1 \<le> n) fi"

definition fields_inv :: "FieldTermData \<Rightarrow> bool" where
  "fields_inv indexData \<longleftrightarrow>
     indexData \<noteq> [] \<and> distinct (map fst indexData) \<and> list_all (\<lambda>(f, fi). freqs_inv fi) indexData"

definition index_inv :: "FieldTermData SearchableMap \<Rightarrow> bool" where
  "index_inv idx \<longleftrightarrow> distinct (map fst idx) \<and> list_all (\<lambda>(t, indexData). fields_inv indexData) idx"

text \<open>Every frequency is below \<open>2 ^ 53\<close>, where adding and subtracting 1 are exact.\<close>

definition index_safe :: "FieldTermData SearchableMap \<Rightarrow> bool" where
  "index_safe idx \<longleftrightarrow>
     list_all (\<lambda>(t, indexData).
       list_all (\<lambda>(f, fi). list_all (\<lambda>(d, n). n < 2 ^ 53) fi) indexData) idx"

datatype termOp = AddTerm int int string | RemoveTerm int int string

fun applyOp :: "termOp \<Rightarrow> ('id, 'sf) SearchIndex \<Rightarrow> error + ('id, 'sf) SearchIndex" where
  "applyOp (AddTerm fieldId documentId term) s = Inr (addTerm fieldId documentId term s)"
| "applyOp (RemoveTerm fieldId documentId term) s = removeTerm fieldId documentId term s"

fun applyOps :: "termOp list \<Rightarrow> ('id, 'sf) SearchIndex \<Rightarrow> error + ('id, 'sf) SearchIndex" where
  "applyOps [] s = Inr s"
| "applyOps (x # xs) s = (case applyOp x s of Inl e \<Rightarrow> Inl e | Inr s' \<Rightarrow> applyOps xs s')"

text \<open>The field map that \<^verbatim>\<open>removeTerm\<close> leaves for the term when the posting is found with
  frequency \<open>a\<close> in the posting map \<open>fi\<close> of the field (its three mutating branches).\<close>

definition removed ::
  "int \<Rightarrow> int \<Rightarrow> int \<Rightarrow> DocumentTermFrequencies \<Rightarrow> FieldTermData \<Rightarrow> FieldTermData" where
  "removed f d a fi indexData =
     (if a \<le> 1 then
        if Map_size fi \<le> 1 then Map_delete f indexData
        else Map_set f (Map_delete d fi) indexData
      else Map_set f (Map_set d (number_subtract a 1) fi) indexData)"

text \<open>The postings of one document, each pair of field id and term as often as its
  frequency says: the \<^verbatim>\<open>removeTerm\<close> calls that take the document out of the index.\<close>

definition docPostings :: "FieldTermData SearchableMap \<Rightarrow> int \<Rightarrow> (int \<times> string) list" where
  "docPostings idx d =
     concat (map (\<lambda>(t, indexData).
       concat (map (\<lambda>(f, fi).
         (case Map_get fi d of None \<Rightarrow> [] | Some n \<Rightarrow> replicate (nat n) (f, t))) indexData)) idx)"

text \<open>The two inner layers of a posting lookup, and the number of occurrences that the
  index records for a term in a field of a document (none when there is no posting).\<close>

definition fieldPosting :: "FieldTermData \<Rightarrow> int \<Rightarrow> int \<Rightarrow> int option" where
  "fieldPosting indexData f d =
     (case Map_get indexData f of None \<Rightarrow> None | Some fi \<Rightarrow> Map_get fi d)"

definition frequency :: "FieldTermData SearchableMap \<Rightarrow> string \<Rightarrow> int \<Rightarrow> int \<Rightarrow> nat" where
  "frequency idx t f d = (case posting idx t f d of None \<Rightarrow> 0 | Some n \<Rightarrow> nat n)"

section \<open>The index object\<close>

subsection \<open>Construction\<close>

text \<open>The constants of \<^verbatim>\<open>defaults.js\<close> are not among the sources; the constructor takes
  them as a parameter.\<close>

record ('id, 'sf) Defaults =
  defaultOptions :: "('id, 'sf) SearchIndexOptions"
  defaultSearchOptions :: "('id, 'sf) SearchOptions"
  defaultAutoSuggestOptions :: "('id, 'sf) SearchOptions"
  defaultAutoVacuumOptions :: AutoVacuumOptions
  defaultVacuumConditions :: VacuumConditions

text \<open>Object spread \<^verbatim>\<open>{...base, ...over}\<close>: a property of \<open>over\<close> wins, a property it lacks
  comes from \<open>base\<close>; spreading \<^verbatim>\<open>undefined\<close> adds nothing.\<close>

definition orElse :: "'a option \<Rightarrow> 'a option \<Rightarrow> 'a option" where
  "orElse x dflt = (case x of Some v \<Rightarrow> Some v | None \<Rightarrow> dflt)"

definition spreadSearchOptions ::
  "('id, 'sf) SearchOptions \<Rightarrow> ('id, 'sf) SearchOptions option \<Rightarrow> ('id, 'sf) SearchOptions" where
  "spreadSearchOptions base over =
     (case over of
        None \<Rightarrow> base
      | Some ov \<Rightarrow>
          \<lparr>so_fields = orElse (so_fields ov) (so_fields base),
           so_filter = orElse (so_filter ov) (so_filter base),
           so_prefix = orElse (so_prefix ov) (so_prefix base),
           so_fuzzy = orElse (so_fuzzy ov) (so_fuzzy base),
           so_maxFuzzy = orElse (so_maxFuzzy ov) (so_maxFuzzy base),
           so_combineWith = orElse (so_combineWith ov) (so_combineWith base),
           so_bm25 = orElse (so_bm25 ov) (so_bm25 base)\<rparr>)"

text \<open>\<^verbatim>\<open>addFields\<close>: \<^verbatim>\<open>for (let i = 0; i < fields.length; i++) this._fieldIds[fields[i]] = i\<close>.\<close>

fun addFieldsFrom :: "nat \<Rightarrow> string list \<Rightarrow> (string \<rightharpoonup> int) \<Rightarrow> (string \<rightharpoonup> int)" where
  "addFieldsFrom i [] fieldIds = fieldIds"
| "addFieldsFrom i (field # rest) fieldIds = addFieldsFrom (Suc i) rest (fieldIds(field \<mapsto> int i))"

definition addFields :: "string list \<Rightarrow> ('id, 'sf) SearchIndex \<Rightarrow> ('id, 'sf) SearchIndex" where
  "addFields flds searchIndex =
     searchIndex\<lparr>s_fieldIds := addFieldsFrom 0 flds (s_fieldIds searchIndex)\<rparr>"

text \<open>The constructor. \<^verbatim>\<open>!options?.fields\<close> holds when the options or their \<^verbatim>\<open>fields\<close> are
  missing; an array, even an empty one, is truthy.\<close>

definition SearchIndex_constructor ::
  "('id, 'sf) Defaults \<Rightarrow> ('id, 'sf) SearchIndexOptions option \<Rightarrow> error + ('id, 'sf) SearchIndex"
  where \<open>SearchIndex_constructor defaults options =
     (case options of
        None \<Rightarrow> Inl (Error ''SlimSearch: option "fields" must be provided'')
      | Some opts \<Rightarrow>
          (case o_fields opts of
             None \<Rightarrow> Inl (Error ''SlimSearch: option "fields" must be provided'')
           | Some flds \<Rightarrow>
               (let autoVacuum =
                      (case o_autoVacuum opts of
                         None \<Rightarrow> AutoVacuumWith (defaultAutoVacuumOptions defaults)
                       | Some (AutoVacuumBool True) \<Rightarrow>
                           AutoVacuumWith (defaultAutoVacuumOptions defaults)
                       | Some av \<Rightarrow> av);
                    options' =
                      \<lparr>o_fields = Some flds,
                       o_idField = orElse (o_idField opts) (o_idField (defaultOptions defaults)),
                       o_storeFields =
                         orElse (o_storeFields opts) (o_storeFields (defaultOptions defaults)),
                       o_autoVacuum = Some autoVacuum,
                       o_searchOptions =
                         Some (spreadSearchOptions (defaultSearchOptions defaults)
                                 (o_searchOptions opts)),
                       o_autoSuggestOptions =
                         Some (spreadSearchOptions (defaultAutoSuggestOptions defaults)
                                 (o_autoSuggestOptions opts))\<rparr>
                in Inr (addFields flds
                     \<lparr>s_options = options',
                      s_index = [],
                      s_documentCount = 0,
                      s_documentIds = [],
                      s_idToShortId = [],
                      s_fieldIds = Map.empty,
                      s_fieldLength = [],
                      s_avgFieldLength = [],
                      s_nextId = 0,
                      s_storedFields = [],
                      s_dirtCount = 0,
                      s_currentVacuum = None,
                      s_enqueuedVacuum = None,
                      s_enqueuedVacuumConditions = Some (defaultVacuumConditions defaults),
                      s_logged = []\<rparr>))))\<close>

subsection \<open>The dirt factor\<close>

text \<open>The getter \<^verbatim>\<open>dirtFactor\<close>: \<^verbatim>\<open>this._dirtCount / (1 + this._documentCount + this._dirtCount)\<close>,
  the sums taken from left to right. When the divisor has overflowed to an infinity the
  quotient is zero.\<close>

definition dirtFactor :: "('id, 'sf) SearchIndex \<Rightarrow> quotient" where
  "dirtFactor searchIndex =
     (let divisor =
            number_add (number_add 1 (s_documentCount searchIndex)) (s_dirtCount searchIndex)
      in if 2 ^ 1024 \<le> \<bar>divisor\<bar> then Finite 0
         else divide_number (s_dirtCount searchIndex) divisor)"

subsection \<open>Serialisation\<close>

text \<open>A number used as a property name is converted with \<^verbatim>\<open>ToString\<close>; on integers that
  is the decimal numeral, with a minus sign for a negative one.\<close>

fun digits :: "nat \<Rightarrow> string" where
  "digits n =
     (if n < 10 then [char_of (48 + n)]
      else digits (n div 10) @ [char_of (48 + n mod 10)])"

declare digits.simps [simp del]

text \<open>The number that a decimal numeral denotes.\<close>

definition digitsValue :: "string \<Rightarrow> nat" where
  "digitsValue cs = foldl (\<lambda>a c. 10 * a + (of_char c - 48)) 0 cs"

definition ToString :: "int \<Rightarrow> string" where
  "ToString i = (if i < 0 then CHR ''-'' # digits (nat (- i)) else digits (nat i))"

definition Object_fromEntries :: "(int, 'v) jsMap \<Rightarrow> (string \<rightharpoonup> 'v)" where
  "Object_fromEntries entries = fold (\<lambda>(key, v) obj. obj(ToString key \<mapsto> v)) entries Map.empty"

type_synonym SerializedIndexEntry = "string \<rightharpoonup> int"

record ('id, 'sf) IndexObject =
  documentCount :: int
  nextId :: int
  documentIds :: "string \<rightharpoonup> 'id"
  fieldIds :: "string \<rightharpoonup> int"
  fieldLength :: "string \<rightharpoonup> int list"
  averageFieldLength :: "real list"
  storedFields :: "string \<rightharpoonup> ('id, 'sf) StoredFields"
  dirtCount :: int
  index :: "(string \<times> (string \<rightharpoonup> SerializedIndexEntry)) list"
  version :: int

definition toJSON :: "('id, 'sf) SearchIndex \<Rightarrow> ('id, 'sf) IndexObject" where
  "toJSON searchIndex =
     (let index =
            fold (\<lambda>(term, fieldIndex) index.
                    (let data =
                           fold (\<lambda>(fieldId, frequencies) data.
                                   data(ToString fieldId \<mapsto> Object_fromEntries frequencies))
                             fieldIndex Map.empty
                     in index @ [(term, data)]))
              (sm_entries (s_index searchIndex)) []
      in \<lparr>documentCount = s_documentCount searchIndex,
          nextId = s_nextId searchIndex,
          documentIds = Object_fromEntries (s_documentIds searchIndex),
          fieldIds = s_fieldIds searchIndex,
          fieldLength = Object_fromEntries (s_fieldLength searchIndex),
          averageFieldLength = s_avgFieldLength searchIndex,
          storedFields = Object_fromEntries (s_storedFields searchIndex),
          dirtCount = s_dirtCount searchIndex,
          index = index,
          version = 2\<rparr>)"

text \<open>The object that the inner loop of \<^verbatim>\<open>toJSON\<close> builds for one term.\<close>

definition serializedFields :: "FieldTermData \<Rightarrow> (string \<rightharpoonup> SerializedIndexEntry)" where
  "serializedFields fieldIndex =
     fold (\<lambda>(fieldId, frequencies) data.
             data(ToString fieldId \<mapsto> Object_fromEntries frequencies)) fieldIndex Map.empty"

text \<open>The frequency that a serialised index records for a term, a field id and a short
  document id.\<close>

definition serializedPosting ::
  "('id, 'sf) IndexObject \<Rightarrow> string \<Rightarrow> int \<Rightarrow> int \<Rightarrow> int option" where
  "serializedPosting json term fieldId documentId =
     (case map_of (index json) term of
        None \<Rightarrow> None
      | Some data \<Rightarrow>
          (case data (ToString fieldId) of
             None \<Rightarrow> None
           | Some entry \<Rightarrow> entry (ToString documentId)))"

text \<open>The representation invariant of the maps alone: no map lists a key twice.\<close>

definition keys_distinct :: "FieldTermData SearchableMap \<Rightarrow> bool" where
  "keys_distinct idx \<longleftrightarrow>
     distinct (map fst idx) \<and>
     list_all (\<lambda>(t, indexData).
       distinct (map fst indexData) \<and> list_all (\<lambda>(f, fi). distinct (map fst fi)) indexData) idx"

section \<open>Search\<close>

text \<open>The value that query execution keeps per document: the accumulated score (a finite
  double), the query terms that matched, and the match information, an object whose property names are the
  matched document terms (listed here in the order \<^verbatim>\<open>Object.keys\<close> yields them).\<close>

record RawResult =
  r_score :: real
  r_terms :: "string list"
  r_match :: MatchInfo

text \<open>Modelled from the spec: \<^verbatim>\<open>byScore\<close> of \<^verbatim>\<open>utils.js\<close> is not among the sources. It is
  the comparator of the sort by descending score; it receives two results, which carry no
  short id, and compares their scores.\<close>

definition byScore :: "('id, 'sf) SearchResult \<Rightarrow> ('id, 'sf) SearchResult \<Rightarrow> real" where
  "byScore a b = score b - score a"

text \<open>\<^verbatim>\<open>Array.prototype.sort\<close> with a comparator is a stable sort: \<open>x\<close> goes before \<open>y\<close> when
  the comparator is negative, after it when positive, and elements that compare equal keep
  their order. For a consistent comparator that fixes the result, computed here by
  insertion from the right.\<close>

fun insertBy :: "('a \<Rightarrow> 'a \<Rightarrow> real) \<Rightarrow> 'a \<Rightarrow> 'a list \<Rightarrow> 'a list" where
  "insertBy cmp x [] = [x]"
| "insertBy cmp x (y # ys) = (if cmp x y \<le> 0 then x # y # ys else y # insertBy cmp x ys)"

definition Array_sort :: "('a \<Rightarrow> 'a \<Rightarrow> real) \<Rightarrow> 'a list \<Rightarrow> 'a list" where
  "Array_sort cmp xs = foldr (insertBy cmp) xs []"

text \<open>\<^verbatim>\<open>Object.assign(target, source)\<close> on a result object: every property of the source is
  written onto the target, replacing a property of the same name; a source that is
  \<^verbatim>\<open>undefined\<close> is skipped.\<close>

definition Object_assign ::
  "('id, 'sf) SearchResult \<Rightarrow> ('id, 'sf) StoredFields option \<Rightarrow> ('id, 'sf) SearchResult" where
  "Object_assign target source =
     (case source of
        None \<Rightarrow> target
      | Some sf \<Rightarrow>
          \<lparr>id' = (case sf_id sf of None \<Rightarrow> id' target | Some v \<Rightarrow> Some v),
           score = (case sf_score sf of None \<Rightarrow> score target | Some v \<Rightarrow> v),
           terms = (case sf_terms sf of None \<Rightarrow> terms target | Some v \<Rightarrow> v),
           match = (case sf_match sf of None \<Rightarrow> match target | Some v \<Rightarrow> v),
           stored = Some (sf_others sf)\<rparr>)"

text \<open>The result object that \<^verbatim>\<open>search\<close> builds for one entry of the combined results:
  the object literal, then \<^verbatim>\<open>Object.assign(result, _storedFields.get(docId))\<close>.\<close>

definition makeResult ::
  "('id, 'sf) SearchIndex \<Rightarrow> int \<Rightarrow> RawResult \<Rightarrow> ('id, 'sf) SearchResult" where
  "makeResult searchIndex docId r =
     (let quality = length (r_terms r);
          result = \<lparr>id' = Map_get (s_documentIds searchIndex) docId,
                    score = number_multiply (r_score r) (real quality),
                    terms = map fst (r_match r),
                    match = r_match r,
                    stored = None\<rparr>
      in Object_assign result (Map_get (s_storedFields searchIndex) docId))"

definition noSearchOptions :: "('id, 'sf) SearchOptions" where
  "noSearchOptions =
     \<lparr>so_fields = None, so_filter = None, so_prefix = None, so_fuzzy = None,
      so_maxFuzzy = None, so_combineWith = None, so_bm25 = None\<rparr>"

text \<open>\<^verbatim>\<open>search\<close>. Query execution (\<^verbatim>\<open>executeQuery\<close> of \<^verbatim>\<open>results.js\<close>) is not among the
  sources and is a parameter; it returns the combined results, a \<^verbatim>\<open>Map\<close> from short id to
  raw result. The options argument defaults to \<^verbatim>\<open>{}\<close>.\<close>

definition search ::
  "(('id, 'sf) SearchIndex \<Rightarrow> 'q \<Rightarrow> ('id, 'sf) SearchOptions \<Rightarrow> (int, RawResult) jsMap) \<Rightarrow>
   ('id, 'sf) SearchIndex \<Rightarrow> 'q \<Rightarrow> ('id, 'sf) SearchOptions option \<Rightarrow> ('id, 'sf) SearchResult list"
  where
  "search executeQuery searchIndex query options =
     (let searchOptions = (case options of None \<Rightarrow> noSearchOptions | Some so \<Rightarrow> so);
          combinedResults = executeQuery searchIndex query searchOptions;
          results =
            fold (\<lambda>(docId, r) results.
                    (let result = makeResult searchIndex docId r
                     in if (case so_filter searchOptions of None \<Rightarrow> True | Some flt \<Rightarrow> flt result)
                        then results @ [result] else results))
              combinedResults []
      in Array_sort byScore results)"

section \<open>Example values\<close>

text \<open>An index over the fields \<open>title\<close> and \<open>text\<close>, as the constructor leaves it, with
  external ids that are strings and no stored fields; and the defaults it was built with
  (the BM25 defaults are those that \<^verbatim>\<open>typings.ts\<close> documents).\<close>

definition exampleSearchOptions :: "(string, unit) SearchOptions" where
  "exampleSearchOptions =
     \<lparr>so_fields = None, so_filter = None, so_prefix = Some False, so_fuzzy = None,
      so_maxFuzzy = Some 6, so_combineWith = Some ''or'',
      so_bm25 = Some \<lparr>bm25_k = 12 / 10, bm25_b = 7 / 10, bm25_d = 5 / 10\<rparr>\<rparr>"

definition exampleDefaults :: "(string, unit) Defaults" where
  "exampleDefaults =
     \<lparr>defaultOptions =
        \<lparr>o_fields = None, o_idField = Some ''id'', o_storeFields = Some [],
         o_autoVacuum = Some (AutoVacuumBool True), o_searchOptions = None,
         o_autoSuggestOptions = None\<rparr>,
      defaultSearchOptions = exampleSearchOptions,
      defaultAutoSuggestOptions = exampleSearchOptions\<lparr>so_prefix := Some True\<rparr>,
      defaultAutoVacuumOptions =
        \<lparr>minDirtCount = Some 20, minDirtFactor = Some (1 / 10),
         batchSize = Some 1000, batchWait = Some 10\<rparr>,
      defaultVacuumConditions = \<lparr>minDirtCount = Some 20, minDirtFactor = Some (1 / 10)\<rparr>\<rparr>"

definition exampleOptions :: "(string, unit) SearchIndexOptions" where
  "exampleOptions =
     \<lparr>o_fields = Some [''title'', ''text''], o_idField = None, o_storeFields = None,
      o_autoVacuum = None, o_searchOptions = None, o_autoSuggestOptions = None\<rparr>"

definition exampleIndex :: "(string, unit) SearchIndex" where
  "exampleIndex =
     \<lparr>s_options =
        \<lparr>o_fields = Some [''title'', ''text''], o_idField = Some ''id'', o_storeFields = Some [],
         o_autoVacuum = Some (AutoVacuumWith (defaultAutoVacuumOptions exampleDefaults)),
         o_searchOptions = Some exampleSearchOptions,
         o_autoSuggestOptions = Some (exampleSearchOptions\<lparr>so_prefix := Some True\<rparr>)\<rparr>,
      s_index = [],
      s_documentCount = 0,
      s_documentIds = [],
      s_idToShortId = [],
      s_fieldIds = [''title'' \<mapsto> 0, ''text'' \<mapsto> 1],
      s_fieldLength = [],
      s_avgFieldLength = [],
      s_nextId = 0,
      s_storedFields = [],
      s_dirtCount = 0,
      s_currentVacuum = None,
      s_enqueuedVacuum = None,
      s_enqueuedVacuumConditions = Some \<lparr>minDirtCount = Some 20, minDirtFactor = Some (1 / 10)\<rparr>,
      s_logged = []\<rparr>"

text \<open>The same index after two documents were added: document 1 holds \<open>zen\<close> once and
  \<open>art\<close> twice in the title, document 2 holds \<open>zen\<close> once.\<close>

definition exampleDictionary :: "FieldTermData SearchableMap" where
  "exampleDictionary = [(''zen'', [(0, [(1, 1), (2, 1)])]), (''art'', [(0, [(1, 2)])])]"

definition exampleLoaded :: "(string, unit) SearchIndex" where
  "exampleLoaded = exampleIndex\<lparr>s_index := exampleDictionary\<rparr>"

text \<open>Three index states outside the invariant of the data model: a term whose entry is an
  empty field map; a term with one posting and an empty posting map beside it; a posting
  whose frequency is \<open>2 ^ 53\<close>.\<close>

definition exampleEmptyEntry :: "(string, unit) SearchIndex" where
  "exampleEmptyEntry = exampleIndex\<lparr>s_index := [(''zen'', [])]\<rparr>"

definition exampleEmptyField :: "(string, unit) SearchIndex" where
  "exampleEmptyField = exampleIndex\<lparr>s_index := [(''zen'', [(0, [(1, 1)]), (1, [])])]\<rparr>"

definition exampleSaturated :: "(string, unit) SearchIndex" where
  "exampleSaturated = exampleIndex\<lparr>s_index := [(''zen'', [(0, [(1, 9007199254740992)])])]\<rparr>"

text \<open>The loaded index with its two documents registered under the external ids \<open>a\<close> and
  \<open>b\<close>; the same index when the constructor was given a default filter that rejects every
  result; and a query execution that yields document 2 before document 1 with equal
  accumulated scores (a term found for document 2 in the first field that is searched and
  for document 1 in the second).\<close>

definition exampleStored :: "(string, unit) SearchIndex" where
  "exampleStored =
     exampleLoaded\<lparr>s_documentCount := 2,
       s_documentIds := [(1, ''a''), (2, ''b'')],
       s_idToShortId := [(''a'', 1), (''b'', 2)],
       s_nextId := 3\<rparr>"

definition exampleFiltered :: "(string, unit) SearchIndex" where
  "exampleFiltered =
     exampleStored\<lparr>s_options := (s_options exampleStored)\<lparr>o_searchOptions :=
       Some (exampleSearchOptions\<lparr>so_filter := Some (\<lambda>result. False)\<rparr>)\<rparr>\<rparr>"


definition exampleRaw :: RawResult where
  "exampleRaw = \<lparr>r_score = 1 / 2, r_terms = [''zen''], r_match = [(''zen'', [''title''])]\<rparr>"

definition exampleQuery ::
  "(string, unit) SearchIndex \<Rightarrow> string \<Rightarrow> (string, unit) SearchOptions \<Rightarrow> (int, RawResult) jsMap"
  where
  "exampleQuery searchIndex query searchOptions = [(2, exampleRaw), (1, exampleRaw)]"

section \<open>Rounding of counts\<close>

lemma spacing_small: "a < 2 ^ 53 \<Longrightarrow> spacing a = 1"
  by (subst spacing.simps) simp

lemma spacing_pos: "0 < spacing a"
  by (induction a rule: spacing.induct) (subst spacing.simps, simp)

lemma spacing_le: "1 \<le> a \<Longrightarrow> spacing a \<le> a"
proof (induction a rule: spacing.induct)
  case (1 a)
  show ?case
  proof (cases "a < 2 ^ 53")
    case True
    then show ?thesis using 1(2) by (simp add: spacing_small)
  next
    case False
    then have "1 \<le> a div 2" by simp
    with 1(1) False have "spacing (a div 2) \<le> a div 2" by simp
    then have "2 * spacing (a div 2) \<le> a" by simp
    then show ?thesis using False by (subst spacing.simps) simp
  qed
qed

lemma toDouble_small: "\<bar>x\<bar> \<le> 2 ^ 53 \<Longrightarrow> toDouble x = x"
proof (cases "\<bar>x\<bar> = 2 ^ 53")
  case True
  then have n: "nat \<bar>x\<bar> = 2 ^ 53" by simp
  have "spacing (2 ^ 53) = 2"
    by (subst spacing.simps) (simp add: spacing_small)
  then have "toDouble x = sgn x * \<bar>x\<bar>"
    by (simp add: toDouble_def n True Let_def)
  then show ?thesis by (simp add: mult_sgn_abs)
next
  case False
  assume "\<bar>x\<bar> \<le> 2 ^ 53"
  with False have "nat \<bar>x\<bar> < 2 ^ 53" by simp
  then have "toDouble x = sgn x * \<bar>x\<bar>"
    by (simp add: toDouble_def spacing_small Let_def)
  then show ?thesis by (simp add: mult_sgn_abs)
qed

lemma toDouble_pos:
  assumes "1 \<le> x"
  shows "1 \<le> toDouble x"
proof -
  have ax: "\<bar>x\<bar> = x" and sx: "sgn x = 1" using assms by simp_all
  let ?q = "int (spacing (nat x))"
  have q: "0 < ?q" using spacing_pos by simp
  have "spacing (nat x) \<le> nat x" using assms by (intro spacing_le) simp
  then have "?q \<le> x" using assms by linarith
  then have "0 < x div ?q" using q by (simp only: pos_imp_zdiv_pos_iff)
  then have "?q \<le> (x div ?q) * ?q" using q by simp
  then have low: "1 \<le> (x div ?q) * ?q" using q by linarith
  have "(x div ?q) * ?q \<le> (x div ?q + 1) * ?q" using q by (simp add: distrib_right)
  with low have up: "1 \<le> (x div ?q + 1) * ?q" by linarith
  show ?thesis
    unfolding toDouble_def Let_def ax sx using low up by simp
qed

lemma toDouble_tie: "toDouble (2 ^ 53 + 1) = 2 ^ 53"
proof -
  have "spacing (nat \<bar>2 ^ 53 + 1\<bar>) = 2"
    by (subst spacing.simps) (simp add: spacing_small)
  then show ?thesis by (simp add: toDouble_def Let_def)
qed

lemma number_add_exact: "\<bar>x + y\<bar> \<le> 2 ^ 53 \<Longrightarrow> number_add x y = x + y"
  by (simp add: number_add_def toDouble_small)

lemma number_subtract_exact: "\<bar>x - y\<bar> \<le> 2 ^ 53 \<Longrightarrow> number_subtract x y = x - y"
  by (simp add: number_subtract_def toDouble_small)

lemma number_add_pos: "0 \<le> n \<Longrightarrow> 1 \<le> number_add n 1"
  by (simp add: number_add_def toDouble_pos)

lemma number_subtract_pos: "\<not> a \<le> 1 \<Longrightarrow> 1 \<le> number_subtract a 1"
  by (simp add: number_subtract_def toDouble_pos)

section \<open>Rounding of numbers\<close>

lemma roundEven_cases:
  "roundEven x = \<lfloor>x\<rfloor> \<and> x - real_of_int \<lfloor>x\<rfloor> \<le> 1 / 2 \<or>
   roundEven x = \<lfloor>x\<rfloor> + 1 \<and> 1 / 2 \<le> x - real_of_int \<lfloor>x\<rfloor>"
  by (simp add: roundEven_def Let_def)

lemma roundEven_le:
  assumes "x \<le> real_of_int N"
  shows "roundEven x \<le> N"
proof -
  have fl: "\<lfloor>x\<rfloor> \<le> N" using assms by (simp add: floor_le_iff)
  show ?thesis
  proof (cases "\<lfloor>x\<rfloor> = N")
    case True
    then have "real_of_int N \<le> x" by (metis of_int_floor_le)
    then have "x - real_of_int \<lfloor>x\<rfloor> = 0" using assms True by simp
    then show ?thesis using True by (simp add: roundEven_def Let_def)
  next
    case False
    then have "\<lfloor>x\<rfloor> + 1 \<le> N" using fl by simp
    then show ?thesis using roundEven_cases [of x] by linarith
  qed
qed

lemma roundEven_nonneg:
  assumes "0 \<le> x"
  shows "0 \<le> roundEven x"
proof -
  have "0 \<le> \<lfloor>x\<rfloor>" using assms by simp
  then show ?thesis using roundEven_cases [of x] by linarith
qed

lemma roundEven_near: "\<bar>real_of_int (roundEven x) - x\<bar> \<le> 1 / 2"
proof -
  have "real_of_int \<lfloor>x\<rfloor> \<le> x" and "x < real_of_int \<lfloor>x\<rfloor> + 1" by linarith+
  then show ?thesis using roundEven_cases [of x] by (auto simp: abs_le_iff)
qed

lemma exponent_neg:
  assumes "0 < x" and "x < 1"
  shows "exponent x \<le> - 1"
proof -
  have "1 < 1 / x" using assms by simp
  then have "2 \<le> \<lceil>1 / x\<rceil>" by linarith
  then have "0 < \<lceil>1 / x\<rceil> - 1" by simp
  then have "bitlen (\<lceil>1 / x\<rceil> - 1) \<noteq> 0" by (simp add: bitlen_eq_zero_iff)
  then have "1 \<le> bitlen (\<lceil>1 / x\<rceil> - 1)"
    using bitlen_nonneg [of "\<lceil>1 / x\<rceil> - 1"] by linarith
  then show ?thesis using assms by (simp add: exponent_def)
qed

lemma quotient_le:
  assumes "0 \<le> n" and "n < d" and "d \<le> 2 ^ 53"
  shows "real_of_int n / real_of_int d \<le> 1 - 1 / 2 ^ 53"
proof -
  have d: "0 < real_of_int d" using assms by simp
  have "real_of_int n \<le> real_of_int d - 1" using assms by linarith
  then have "real_of_int n / real_of_int d \<le> (real_of_int d - 1) / real_of_int d"
    using d by (simp add: divide_right_mono)
  also have "\<dots> = 1 - 1 / real_of_int d" using d by (simp add: diff_divide_distrib)
  also have "\<dots> \<le> 1 - 1 / 2 ^ 53"
  proof -
    have "real_of_int d \<le> 2 ^ 53" using assms(3) by (metis of_int_le_iff of_int_numeral of_int_power)
    then have "1 / 2 ^ 53 \<le> 1 / real_of_int d" using d by (simp add: frac_le)
    then show ?thesis by simp
  qed
  finally show ?thesis .
qed

lemma roundNumber_range:
  assumes q0: "0 < q" and q1: "q \<le> 1 - 1 / 2 ^ 53"
  shows "0 \<le> roundNumber q \<and> roundNumber q \<le> 1 - 1 / 2 ^ 53 \<and>
     \<bar>roundNumber q - q\<bar> \<le> 1 / 2 ^ 54"
proof -
  define E where "E = max (exponent q) (- 1022) - 52"
  define K where "K = nat (- E)"
  define m where "m = roundEven (q * 2 ^ K)"
  have aq: "\<bar>q\<bar> = q" using q0 by simp
  have "(1::real) - 1 / 2 ^ 53 < 1" by simp
  with q1 have "q < 1" by (rule le_less_trans)
  with q0 have "exponent q \<le> - 1" by (rule exponent_neg)
  then have E: "E \<le> - 53" by (simp add: E_def)
  then have K: "53 \<le> K" by (simp add: K_def)
  have u: "pow2 E = 1 / 2 ^ K"
    using E by (simp add: pow2_def K_def)
  define P where "P = (2::real) ^ (K - 53)"
  define N where "N = (2::int) ^ (K - 53) * 2 ^ 53 - 2 ^ (K - 53)"
  have P: "0 < P" by (simp add: P_def)
  have "(2::real) ^ K = 2 ^ (K - 53 + 53)" using K by simp
  also have "\<dots> = P * 2 ^ 53" unfolding P_def by (rule power_add)
  finally have split: "(2::real) ^ K = P * 2 ^ 53" .
  have N: "real_of_int N = P * 2 ^ 53 - P" by (simp add: N_def P_def)
  have "q * 2 ^ K \<le> (1 - 1 / 2 ^ 53) * 2 ^ K"
    using q1 by (intro mult_right_mono) simp_all
  also have "\<dots> = real_of_int N"
    unfolding N split by (simp add: algebra_simps)
  finally have "m \<le> N"
    unfolding m_def by (rule roundEven_le)
  then have "real_of_int m \<le> real_of_int N" by (simp only: of_int_le_iff)
  then have "real_of_int m / 2 ^ K \<le> real_of_int N / 2 ^ K"
    by (intro divide_right_mono) simp_all
  also have "\<dots> = 1 - 1 / 2 ^ 53"
    unfolding N split using P by (simp add: field_simps)
  finally have r1: "real_of_int m / 2 ^ K \<le> 1 - 1 / 2 ^ 53" .
  have m0: "0 \<le> m" unfolding m_def using q0 by (intro roundEven_nonneg) simp
  then have r0: "0 \<le> real_of_int m / 2 ^ K" by simp
  have "\<bar>real_of_int m - q * 2 ^ K\<bar> \<le> 1 / 2"
    unfolding m_def by (rule roundEven_near)
  then have "\<bar>real_of_int m - q * 2 ^ K\<bar> / 2 ^ K \<le> (1 / 2) / 2 ^ K"
    by (intro divide_right_mono) simp_all
  moreover have "\<bar>real_of_int m - q * 2 ^ K\<bar> / 2 ^ K = \<bar>real_of_int m / 2 ^ K - q\<bar>"
  proof -
    have "real_of_int m / 2 ^ K - q = (real_of_int m - q * 2 ^ K) / 2 ^ K"
      by (simp add: diff_divide_distrib)
    then have "\<bar>real_of_int m / 2 ^ K - q\<bar> = \<bar>real_of_int m - q * 2 ^ K\<bar> / \<bar>2 ^ K\<bar>"
      by (simp only: abs_divide)
    then show ?thesis by simp
  qed
  moreover have "(1 / 2) / (2::real) ^ K \<le> 1 / 2 ^ 54"
  proof -
    have "(2::real) ^ 54 \<le> 2 ^ Suc K" using K by (intro power_increasing) simp_all
    then have "1 / (2::real) ^ Suc K \<le> 1 / 2 ^ 54" by (intro frac_le) simp_all
    then show ?thesis by simp
  qed
  ultimately have err: "\<bar>real_of_int m / 2 ^ K - q\<bar> \<le> 1 / 2 ^ 54" by linarith
  have small: "min (real_of_int m / 2 ^ K) (2 ^ 1024) = real_of_int m / 2 ^ K"
  proof -
    have "(1::real) - 1 / 2 ^ 53 \<le> 1" by simp
    with r1 have "real_of_int m / 2 ^ K \<le> 1" by (rule order_trans)
    moreover have "(1::real) < 2 ^ 1024" by (rule one_less_power) simp_all
    ultimately have "real_of_int m / 2 ^ K \<le> 2 ^ 1024" by linarith
    then show ?thesis by (rule min_absorb1)
  qed
  have "roundNumber q = real_of_int m / 2 ^ K"
  proof -
    have sq: "sgn q = 1" using q0 by (rule sgn_pos)
    have ne: "q \<noteq> 0" using q0 by simp
    have "real_of_int (roundEven (q / pow2 E)) * pow2 E = real_of_int m / 2 ^ K"
      unfolding u m_def by simp
    then show ?thesis
      unfolding roundNumber_def Let_def aq E_def [symmetric] sq using ne small by simp
  qed
  then show ?thesis using r0 r1 err by simp
qed

lemma divide_number_range:
  assumes n: "0 < n" and nd: "n < d" and d: "d \<le> 2 ^ 53"
  shows "\<exists>r. divide_number n d = Finite r \<and> 0 \<le> r \<and> r \<le> 1 - 1 / 2 ^ 53 \<and>
     \<bar>r - real_of_int n / real_of_int d\<bar> \<le> 1 / 2 ^ 54"
proof -
  define q where "q = real_of_int n / real_of_int d"
  have q0: "0 < q" using n nd by (simp add: q_def)
  have q1: "q \<le> 1 - 1 / 2 ^ 53"
    unfolding q_def using n nd d by (intro quotient_le) simp_all
  note r = roundNumber_range [OF q0 q1]
  have "(1::real) - 1 / 2 ^ 53 \<le> 1" by simp
  with r [THEN conjunct2, THEN conjunct1] have "roundNumber q \<le> 1" by (rule order_trans)
  moreover have "(1::real) < 2 ^ 1024" by (rule one_less_power) simp_all
  ultimately have "\<bar>roundNumber q\<bar> < 2 ^ 1024"
    using r [THEN conjunct1] by linarith
  moreover have "d \<noteq> 0" using n nd by simp
  ultimately have "divide_number n d = Finite (roundNumber q)"
    by (simp add: divide_number_def Let_def q_def)
  then show ?thesis using r by (simp add: q_def)
qed

lemma bitlen_one: "bitlen 1 = 1"
  by (subst compute_bitlen) simp

lemma roundNumber_quarter: "roundNumber (1 / 4) = 1 / 4"
proof -
  have "bitlen 3 = bitlen 1 + 1" by (subst compute_bitlen) simp
  then have e: "exponent (1 / 4) = - 2"
    by (simp add: exponent_def bitlen_one)
  show ?thesis
    by (simp add: roundNumber_def e pow2_def roundEven_def)
qed


lemma roundNumber_one: "roundNumber 1 = 1"
proof -
  have e: "exponent 1 = 0"
    by (simp add: exponent_def bitlen_one)
  show ?thesis
    by (simp add: roundNumber_def e pow2_def roundEven_def)
qed


section \<open>The dictionary invariant\<close>

lemma list_all_update:
  "list_all P al \<Longrightarrow> P (k, v) \<Longrightarrow> list_all P (AList.update k v al)"
  by (induction al) auto

lemma list_all_delete: "list_all P al \<Longrightarrow> list_all P (AList.delete k al)"
  by (simp add: AList.delete_eq list_all_iff)

lemma length_delete_distinct:
  "distinct (map fst al) \<Longrightarrow> length al \<le> Suc (length (AList.delete k al))"
  by (induction al) auto

lemma delete_nonempty:
  "distinct (map fst al) \<Longrightarrow> 1 < length al \<Longrightarrow> AList.delete k al \<noteq> []"
  using length_delete_distinct [of al k] by auto

lemma list_all_map_of:
  "list_all P al \<Longrightarrow> map_of al k = Some v \<Longrightarrow> P (k, v)"
  by (auto simp: list_all_iff dest: map_of_SomeD)

lemma freqs_inv_set:
  "freqs_inv fi \<Longrightarrow> 1 \<le> n \<Longrightarrow> freqs_inv (Map_set d n fi)"
  by (simp add: freqs_inv_def distinct_update list_all_update)

lemma freqs_inv_single: "freqs_inv (Map_set d 1 [])"
  by (simp add: freqs_inv_def)

lemma freqs_inv_delete:
  "freqs_inv fi \<Longrightarrow> 1 < length fi \<Longrightarrow> freqs_inv (Map_delete d fi)"
  by (simp add: freqs_inv_def distinct_delete list_all_delete delete_nonempty)

lemma fields_inv_set:
  "distinct (map fst indexData) \<Longrightarrow> list_all (\<lambda>(f, fi). freqs_inv fi) indexData \<Longrightarrow> freqs_inv fi
   \<Longrightarrow> fields_inv (Map_set f fi indexData)"
  by (simp add: fields_inv_def distinct_update list_all_update)

lemma index_inv_set:
  "index_inv idx \<Longrightarrow> fields_inv indexData \<Longrightarrow> index_inv (sm_set t indexData idx)"
  by (simp add: index_inv_def sm_set_def distinct_update list_all_update)

lemma index_inv_delete: "index_inv idx \<Longrightarrow> index_inv (sm_delete t idx)"
  by (simp add: index_inv_def sm_delete_def distinct_delete list_all_delete)

lemma index_inv_get:
  "index_inv idx \<Longrightarrow> map_of idx t = Some indexData \<Longrightarrow> fields_inv indexData"
  unfolding index_inv_def using list_all_map_of by fastforce

lemma fields_inv_get:
  "fields_inv indexData \<Longrightarrow> map_of indexData f = Some fi \<Longrightarrow> freqs_inv fi"
  unfolding fields_inv_def using list_all_map_of by fastforce

lemma freqs_inv_get:
  "freqs_inv fi \<Longrightarrow> map_of fi d = Some n \<Longrightarrow> 1 \<le> n"
  unfolding freqs_inv_def using list_all_map_of by fastforce

lemma fields_inv_distinct: "fields_inv m \<Longrightarrow> distinct (map fst m)"
  and fields_inv_all: "fields_inv m \<Longrightarrow> list_all (\<lambda>(f, fi). freqs_inv fi) m"
  by (simp_all add: fields_inv_def)

lemma addTerm_index:
  "s_index (addTerm f d t s) =
     sm_set t
       (case map_of (s_index s) t of
          None \<Rightarrow> [(f, [(d, 1)])]
        | Some indexData \<Rightarrow>
            (case map_of indexData f of
               None \<Rightarrow> Map_set f [(d, 1)] indexData
             | Some fi \<Rightarrow>
                 Map_set f (Map_set d (number_add (case map_of fi d of None \<Rightarrow> 0 | Some n \<Rightarrow> n) 1) fi)
                   indexData))
       (s_index s)"
  by (simp add: addTerm_def sm_fetch_def sm_set_def createMap_def split: option.split)

lemma addTerm_inv:
  assumes "index_inv (s_index s)"
  shows "index_inv (s_index (addTerm f d t s))"
proof -
  have single: "fields_inv [(f, [(d, 1)])]"
    by (simp add: fields_inv_def freqs_inv_def)
  have "fields_inv
       (case map_of (s_index s) t of
          None \<Rightarrow> [(f, [(d, 1)])]
        | Some indexData \<Rightarrow>
            (case map_of indexData f of
               None \<Rightarrow> Map_set f [(d, 1)] indexData
             | Some fi \<Rightarrow>
                 Map_set f (Map_set d (number_add (case map_of fi d of None \<Rightarrow> 0 | Some n \<Rightarrow> n) 1) fi)
                   indexData))"
  proof (cases "map_of (s_index s) t")
    case None
    then show ?thesis using single by simp
  next
    case (Some indexData)
    then have fd: "fields_inv indexData"
      using assms index_inv_get by blast
    show ?thesis
    proof (cases "map_of indexData f")
      case None
      have "freqs_inv [(d, 1)]" by (simp add: freqs_inv_def)
      then show ?thesis
        using Some None fd by (simp add: fields_inv_set fields_inv_distinct fields_inv_all)
    next
      case (Some fi)
      then have fi: "freqs_inv fi" using fd fields_inv_get by blast
      have "0 \<le> (case map_of fi d of None \<Rightarrow> 0 | Some n \<Rightarrow> n)"
        using freqs_inv_get [OF fi, of d] by (cases "map_of fi d") auto
      then have "1 \<le> number_add (case map_of fi d of None \<Rightarrow> 0 | Some n \<Rightarrow> n) 1"
        by (rule number_add_pos)
      then have "freqs_inv (Map_set d (number_add (case map_of fi d of None \<Rightarrow> 0 | Some n \<Rightarrow> n) 1) fi)"
        using fi by (rule freqs_inv_set [rotated])
      then show ?thesis
        using \<open>map_of (s_index s) t = Some indexData\<close> Some fd
        by (simp add: fields_inv_set fields_inv_distinct fields_inv_all)
    qed
  qed
  then show ?thesis
    using assms by (simp add: addTerm_index index_inv_set)
qed

lemma removeTerm_absent:
  "map_of (s_index s) t = None \<Longrightarrow> removeTerm f d t s = Inr (warnDocumentChanged s d f t)"
  by (simp add: removeTerm_def sm_has_def)

lemma removeTerm_present:
  assumes "map_of (s_index s) t = Some indexData"
  shows "removeTerm f d t s =
     (let s1 =
        (case map_of indexData f of
           None \<Rightarrow> warnDocumentChanged s d f t
         | Some fi \<Rightarrow>
             (case map_of fi d of
                None \<Rightarrow> warnDocumentChanged s d f t
              | Some a \<Rightarrow>
                  if a \<le> 1 then
                    if length fi \<le> 1
                    then s\<lparr>s_index := sm_set t (Map_delete f indexData) (s_index s)\<rparr>
                    else s\<lparr>s_index := sm_set t (Map_set f (Map_delete d fi) indexData) (s_index s)\<rparr>
                  else s\<lparr>s_index := sm_set t (Map_set f (Map_set d (number_subtract a 1) fi) indexData) (s_index s)\<rparr>))
      in case map_of (s_index s1) t of
           None \<Rightarrow> Inl TypeError
         | Some m \<Rightarrow> Inr (if m = [] then s1\<lparr>s_index := sm_delete t (s_index s1)\<rparr> else s1))"
  using assms
  by (simp add: removeTerm_def sm_has_def sm_fetch_def sm_get_def Let_def split: option.split)


lemma removeTerm_warn:
  assumes "map_of (s_index s) t = Some indexData"
    and "map_of indexData f = None \<or> (\<exists>fi. map_of indexData f = Some fi \<and> map_of fi d = None)"
  shows "removeTerm f d t s =
     Inr (if indexData = []
          then (warnDocumentChanged s d f t)\<lparr>s_index := sm_delete t (s_index s)\<rparr>
          else warnDocumentChanged s d f t)"
  using assms
  by (auto simp: removeTerm_present warnDocumentChanged_def)

lemma removeTerm_found:
  assumes "map_of (s_index s) t = Some indexData"
    and "map_of indexData f = Some fi" and "map_of fi d = Some a"
  shows "removeTerm f d t s =
     Inr (s\<lparr>s_index :=
            if removed f d a fi indexData = [] then sm_delete t (s_index s)
            else sm_set t (removed f d a fi indexData) (s_index s)\<rparr>)"
  using assms
  by (simp add: removeTerm_present removed_def sm_set_def sm_delete_def update_conv'
      delete_update_same)

lemma removed_inv:
  assumes "fields_inv indexData" and "map_of indexData f = Some fi" and "map_of fi d = Some a"
    and "removed f d a fi indexData \<noteq> []"
  shows "fields_inv (removed f d a fi indexData)"
proof -
  have fi: "freqs_inv fi" using assms(1,2) fields_inv_get by blast
  have a: "1 \<le> a" using fi assms(3) freqs_inv_get by blast
  have dist: "distinct (map fst indexData)" and all: "list_all (\<lambda>(f, fi). freqs_inv fi) indexData"
    using assms(1) by (simp_all add: fields_inv_def)
  show ?thesis
  proof (cases "a \<le> 1")
    case True
    show ?thesis
    proof (cases "length fi \<le> 1")
      case True
      with \<open>a \<le> 1\<close> have eq: "removed f d a fi indexData = Map_delete f indexData"
        by (simp add: removed_def)
      show ?thesis
        using assms(4) dist all unfolding eq fields_inv_def
        by (simp add: distinct_delete list_all_delete)
    next
      case False
      with \<open>a \<le> 1\<close> have eq: "removed f d a fi indexData = Map_set f (Map_delete d fi) indexData"
        by (simp add: removed_def)
      have "freqs_inv (Map_delete d fi)"
        using fi False by (simp add: freqs_inv_delete)
      then show ?thesis unfolding eq using dist all by (rule fields_inv_set [rotated 2])
    qed
  next
    case False
    then have eq: "removed f d a fi indexData = Map_set f (Map_set d (number_subtract a 1) fi) indexData"
      by (simp add: removed_def)
    have "freqs_inv (Map_set d (number_subtract a 1) fi)"
      using fi False by (simp add: freqs_inv_set number_subtract_pos)
    then show ?thesis unfolding eq using dist all by (rule fields_inv_set [rotated 2])
  qed
qed

lemma removeTerm_inv:
  assumes "index_inv (s_index s)"
  shows "\<exists>s'. removeTerm f d t s = Inr s' \<and> index_inv (s_index s')"
proof (cases "map_of (s_index s) t")
  case None
  then show ?thesis using assms by (simp add: removeTerm_absent warnDocumentChanged_def)
next
  case (Some indexData)
  then have fd: "fields_inv indexData" using assms index_inv_get by blast
  then have ne: "indexData \<noteq> []" by (simp add: fields_inv_def)
  show ?thesis
  proof (cases "\<exists>fi a. map_of indexData f = Some fi \<and> map_of fi d = Some a")
    case True
    then obtain fi a where fi: "map_of indexData f = Some fi" and a: "map_of fi d = Some a"
      by blast
    show ?thesis
      using assms removed_inv [OF fd fi a]
      by (simp add: removeTerm_found [OF Some fi a] index_inv_set index_inv_delete)
  next
    case False
    then have "map_of indexData f = None \<or> (\<exists>fi. map_of indexData f = Some fi \<and> map_of fi d = None)"
      by (cases "map_of indexData f") auto
    then show ?thesis
      using assms ne by (simp add: removeTerm_warn [OF Some] warnDocumentChanged_def)
  qed
qed

lemma applyOps_inv:
  "index_inv (s_index s) \<Longrightarrow> \<exists>s'. applyOps ops s = Inr s' \<and> index_inv (s_index s')"
proof (induction ops arbitrary: s)
  case Nil
  then show ?case by simp
next
  case (Cons x xs)
  show ?case
  proof (cases x)
    case (AddTerm f d t)
    then show ?thesis using Cons.IH [OF addTerm_inv [OF Cons.prems]] by simp
  next
    case (RemoveTerm f d t)
    obtain s1 where "removeTerm f d t s = Inr s1" and "index_inv (s_index s1)"
      using removeTerm_inv [OF Cons.prems] by blast
    then show ?thesis using RemoveTerm Cons.IH [of s1] by simp
  qed
qed

lemma index_inv_posting:
  assumes "index_inv idx" and "t \<in> set (map fst idx)"
  shows "\<exists>f d n. posting idx t f d = Some n \<and> 0 < n"
proof -
  from assms(2) obtain indexData where mem: "(t, indexData) \<in> set idx" by auto
  with assms(1) have get: "map_of idx t = Some indexData"
    by (simp add: index_inv_def)
  then have fd: "fields_inv indexData" using assms(1) index_inv_get by blast
  then obtain f fi rest where "indexData = (f, fi) # rest"
    by (cases indexData) (auto simp: fields_inv_def)
  then have getf: "map_of indexData f = Some fi" by simp
  then have fi: "freqs_inv fi" using fd fields_inv_get by blast
  then obtain d n rest' where "fi = (d, n) # rest'"
    by (cases fi) (auto simp: freqs_inv_def)
  then have getd: "map_of fi d = Some n" by simp
  then have "1 \<le> n" using fi freqs_inv_get by blast
  moreover have "posting idx t f d = Some n"
    using get getf getd by (simp add: posting_def sm_get_def)
  ultimately have "posting idx t f d = Some n \<and> 0 < n" by simp
  then show ?thesis by blast
qed

text \<open>
  Claim C1. Whatever sequence of \<^verbatim>\<open>addTerm\<close> and \<^verbatim>\<open>removeTerm\<close> calls runs on an index whose
  term dictionary is empty, the sequence runs to its end without an exception, and in the
  index it leaves every term of the dictionary has a posting, for some field id and some
  short document id, whose frequency is a positive integer. The invariant carried through
  the sequence is \<^const>\<open>index_inv\<close>: it gives every term of the dictionary such a posting,
  \<^verbatim>\<open>addTerm\<close> preserves it, and \<^verbatim>\<open>removeTerm\<close> returns normally and preserves it.
\<close>

theorem C1_dictionary_terms_have_postings:
  "(s_index s = [] \<longrightarrow>
      (\<exists>s'. applyOps ops s = Inr s' \<and>
         (\<forall>t \<in> set (map fst (s_index s')).
            \<exists>f d n. posting (s_index s') t f d = Some n \<and> 0 < n))) \<and>
   (index_inv (s_index s2) \<longrightarrow>
      (\<forall>t \<in> set (map fst (s_index s2)). \<exists>f d n. posting (s_index s2) t f d = Some n \<and> 0 < n) \<and>
      index_inv (s_index (addTerm fieldId documentId term s2)) \<and>
      (\<exists>s'. removeTerm fieldId documentId term s2 = Inr s' \<and> index_inv (s_index s')))"
proof (intro conjI impI)
  assume "s_index s = []"
  then have "index_inv (s_index s)" by (simp add: index_inv_def)
  then obtain s' where "applyOps ops s = Inr s'" and "index_inv (s_index s')"
    using applyOps_inv by blast
  then show "\<exists>s'. applyOps ops s = Inr s' \<and>
         (\<forall>t \<in> set (map fst (s_index s')).
            \<exists>f d n. posting (s_index s') t f d = Some n \<and> 0 < n)"
    using index_inv_posting by blast
next
  assume "index_inv (s_index s2)"
  then show "\<forall>t \<in> set (map fst (s_index s2)). \<exists>f d n. posting (s_index s2) t f d = Some n \<and> 0 < n"
    using index_inv_posting by blast
next
  assume "index_inv (s_index s2)"
  then show "index_inv (s_index (addTerm fieldId documentId term s2))"
    by (rule addTerm_inv)
next
  assume "index_inv (s_index s2)"
  then show "\<exists>s'. removeTerm fieldId documentId term s2 = Inr s' \<and> index_inv (s_index s')"
    by (rule removeTerm_inv)
qed

theorem C1_dictionary_terms_have_postings_witness:
  "s_index exampleIndex = [] \<and>
   (\<exists>s'. applyOps [AddTerm 0 1 ''zen'', AddTerm 0 2 ''zen'', RemoveTerm 0 1 ''zen'',
                    AddTerm 1 2 ''art'', RemoveTerm 1 2 ''art''] exampleIndex = Inr s' \<and>
      s_index s' = [(''zen'', [(0, [(2, 1)])])] \<and>
      (\<exists>f d n. posting (s_index s') ''zen'' f d = Some n \<and> 0 < n)) \<and>
   index_inv (s_index exampleLoaded) \<and>
   ''art'' \<in> set (map fst (s_index exampleLoaded)) \<and>
   (\<exists>f d n. posting (s_index exampleLoaded) ''art'' f d = Some n \<and> 0 < n) \<and>
   index_inv (s_index (addTerm 0 1 ''zen'' exampleLoaded)) \<and>
   (\<exists>s'. removeTerm 0 1 ''zen'' exampleLoaded = Inr s' \<and> index_inv (s_index s'))"
proof -
  note c1 = C1_dictionary_terms_have_postings
    [of exampleIndex
      "[AddTerm 0 1 ''zen'', AddTerm 0 2 ''zen'', RemoveTerm 0 1 ''zen'',
        AddTerm 1 2 ''art'', RemoveTerm 1 2 ''art'']"
      exampleLoaded 0 1 "''zen''"]
  have empty: "s_index exampleIndex = []"
    by (simp add: exampleIndex_def)
  have inv: "index_inv (s_index exampleLoaded)"
    by (simp add: exampleLoaded_def exampleDictionary_def index_inv_def fields_inv_def
        freqs_inv_def)
  have art: "''art'' \<in> set (map fst (s_index exampleLoaded))"
    by (simp add: exampleLoaded_def exampleDictionary_def)
  from c1 [THEN conjunct1, rule_format, OF empty]
  obtain s' where run:
      "applyOps [AddTerm 0 1 ''zen'', AddTerm 0 2 ''zen'', RemoveTerm 0 1 ''zen'',
                 AddTerm 1 2 ''art'', RemoveTerm 1 2 ''art''] exampleIndex = Inr s' \<and>
       (\<forall>t \<in> set (map fst (s_index s')). \<exists>f d n. posting (s_index s') t f d = Some n \<and> 0 < n)" ..
  have idx: "s_index s' = [(''zen'', [(0, [(2, 1)])])]"
    using run [THEN conjunct1]
    by (auto simp: exampleIndex_def addTerm_def removeTerm_def sm_fetch_def sm_has_def
        sm_set_def sm_get_def sm_delete_def createMap_def number_add_exact number_subtract_exact)
  then have "\<exists>f d n. posting (s_index s') ''zen'' f d = Some n \<and> 0 < n"
    using run [THEN conjunct2] by simp
  then have first: "\<exists>s'. applyOps [AddTerm 0 1 ''zen'', AddTerm 0 2 ''zen'', RemoveTerm 0 1 ''zen'',
                    AddTerm 1 2 ''art'', RemoveTerm 1 2 ''art''] exampleIndex = Inr s' \<and>
      s_index s' = [(''zen'', [(0, [(2, 1)])])] \<and>
      (\<exists>f d n. posting (s_index s') ''zen'' f d = Some n \<and> 0 < n)"
    using run [THEN conjunct1] idx by blast
  note second = c1 [THEN conjunct2, rule_format, OF inv]
  have "\<exists>f d n. posting (s_index exampleLoaded) ''art'' f d = Some n \<and> 0 < n"
    using second [THEN conjunct1] art by blast
  then show ?thesis
    using empty first inv art second [THEN conjunct2] by blast
qed

section \<open>Postings under removal\<close>

lemma posting_fieldPosting:
  "posting idx t f d = (case map_of idx t of None \<Rightarrow> None | Some m \<Rightarrow> fieldPosting m f d)"
  by (simp add: posting_def fieldPosting_def sm_get_def split: option.splits)

lemma posting_sm_set:
  "posting (sm_set t m idx) t' f d = (if t' = t then fieldPosting m f d else posting idx t' f d)"
  by (simp add: posting_fieldPosting sm_set_def update_conv')

lemma posting_sm_delete:
  "posting (sm_delete t idx) t' f d = (if t' = t then None else posting idx t' f d)"
  by (simp add: posting_fieldPosting sm_delete_def delete_conv')

lemma single_entry:
  "length fi \<le> 1 \<Longrightarrow> map_of fi d = Some a \<Longrightarrow> fi = [(d, a)]"
  by (cases fi) (auto split: if_splits)

lemma fieldPosting_delete_field:
  "map_of indexData f = Some [(d, a)] \<Longrightarrow>
   fieldPosting (Map_delete f indexData) f' d' =
     (if f' = f \<and> d' = d then None else fieldPosting indexData f' d')"
  by (simp add: fieldPosting_def delete_conv')

lemma fieldPosting_delete_doc:
  "map_of indexData f = Some fi \<Longrightarrow>
   fieldPosting (Map_set f (Map_delete d fi) indexData) f' d' =
     (if f' = f \<and> d' = d then None else fieldPosting indexData f' d')"
  by (simp add: fieldPosting_def update_conv' delete_conv')

lemma fieldPosting_set_doc:
  "map_of indexData f = Some fi \<Longrightarrow>
   fieldPosting (Map_set f (Map_set d n fi) indexData) f' d' =
     (if f' = f \<and> d' = d then Some n else fieldPosting indexData f' d')"
  by (simp add: fieldPosting_def update_conv')

lemma fieldPosting_removed:
  assumes "map_of indexData f = Some fi" and "map_of fi d = Some a"
  shows "fieldPosting (removed f d a fi indexData) f' d' =
     (if f' = f \<and> d' = d then (if a \<le> 1 then None else Some (number_subtract a 1))
      else fieldPosting indexData f' d')"
proof (cases "a \<le> 1 \<and> length fi \<le> 1")
  case True
  then have "fi = [(d, a)]" using assms(2) by (simp add: single_entry)
  then have "map_of indexData f = Some [(d, a)]" using assms(1) by simp
  from fieldPosting_delete_field [OF this] show ?thesis
    using True by (simp add: removed_def)
next
  case False
  show ?thesis
    using False fieldPosting_delete_doc [OF assms(1)] fieldPosting_set_doc [OF assms(1)]
    by (simp add: removed_def)
qed

lemma posting_removed:
  assumes "map_of idx t = Some indexData" and "map_of indexData f = Some fi"
    and "map_of fi d = Some a"
  shows "posting (if removed f d a fi indexData = [] then sm_delete t idx
                  else sm_set t (removed f d a fi indexData) idx) t' f' d' =
     (if t' = t \<and> f' = f \<and> d' = d then (if a \<le> 1 then None else Some (number_subtract a 1))
      else posting idx t' f' d')"
proof -
  have "posting (if removed f d a fi indexData = [] then sm_delete t idx
                 else sm_set t (removed f d a fi indexData) idx) t' f' d' =
        (if t' = t then fieldPosting (removed f d a fi indexData) f' d' else posting idx t' f' d')"
    by (cases "removed f d a fi indexData = []")
      (simp_all add: posting_sm_set posting_sm_delete fieldPosting_def)
  also have "\<dots> = (if t' = t \<and> f' = f \<and> d' = d then (if a \<le> 1 then None else Some (number_subtract a 1))
      else posting idx t' f' d')"
    using assms(1) by (simp add: fieldPosting_removed [OF assms(2,3)] posting_fieldPosting)
  finally show ?thesis .
qed

lemma posting_SomeD:
  assumes "posting idx t f d = Some a"
  obtains indexData fi where "map_of idx t = Some indexData" and "map_of indexData f = Some fi"
    and "map_of fi d = Some a"
  using assms by (auto simp: posting_def sm_get_def split: option.splits)

lemma posting_positive:
  assumes "index_inv idx" and "posting idx t f d = Some a"
  shows "1 \<le> a"
proof -
  from assms(2) obtain indexData fi where "map_of idx t = Some indexData"
    and "map_of indexData f = Some fi" and "map_of fi d = Some a"
    by (rule posting_SomeD)
  then show ?thesis
    using assms(1) index_inv_get fields_inv_get freqs_inv_get by blast
qed

lemma has_iff_posting:
  assumes "index_inv idx"
  shows "sm_has idx t \<longleftrightarrow> (\<exists>f d. posting idx t f d \<noteq> None)"
proof
  assume "sm_has idx t"
  then have "t \<in> set (map fst idx)"
    by (auto simp: sm_has_def dest: map_of_SomeD intro: rev_image_eqI)
  then show "\<exists>f d. posting idx t f d \<noteq> None"
    using index_inv_posting [OF assms] by fastforce
next
  assume "\<exists>f d. posting idx t f d \<noteq> None"
  then show "sm_has idx t"
    by (auto simp: posting_def sm_has_def sm_get_def split: option.splits)
qed


lemma posting_NoneD:
  assumes "posting idx t f d = None" and "map_of idx t = Some indexData"
  shows "map_of indexData f = None \<or> (\<exists>fi. map_of indexData f = Some fi \<and> map_of fi d = None)"
  using assms by (cases "map_of indexData f") (simp_all add: posting_def sm_get_def)

lemma frequency_removed:
  assumes "index_inv idx" and "map_of idx t = Some indexData" and "map_of indexData f = Some fi"
    and "map_of fi d = Some a" and "a < 2 ^ 53"
  shows "frequency (if removed f d a fi indexData = [] then sm_delete t idx
                    else sm_set t (removed f d a fi indexData) idx) t' f' d =
     frequency idx t' f' d - (if (f', t') = (f, t) then 1 else 0)"
proof -
  have p: "posting idx t f d = Some a"
    using assms(2-4) by (simp add: posting_def sm_get_def)
  then have a: "1 \<le> a" using assms(1) posting_positive by blast
  then have "number_subtract a 1 = a - 1"
    using assms(5) by (intro number_subtract_exact) simp
  then show ?thesis
    using p a by (auto simp: frequency_def posting_removed [OF assms(2-4)])
qed

lemma removeTerm_step:
  assumes inv: "index_inv (s_index s)"
    and safe: "\<forall>t f d n. posting (s_index s) t f d = Some n \<longrightarrow> n < 2 ^ 53"
    and pos: "0 < frequency (s_index s) t f d"
  shows "\<exists>s'. removeTerm f d t s = Inr s' \<and> index_inv (s_index s') \<and> s_logged s' = s_logged s \<and>
     (\<forall>t' f' d' n. posting (s_index s') t' f' d' = Some n \<longrightarrow> n < 2 ^ 53) \<and>
     (\<forall>t' f'. frequency (s_index s') t' f' d =
        frequency (s_index s) t' f' d - (if (f', t') = (f, t) then 1 else 0)) \<and>
     (\<forall>t' f' d'. d' \<noteq> d \<longrightarrow> posting (s_index s') t' f' d' = posting (s_index s) t' f' d')"
proof -
  from pos obtain a where p: "posting (s_index s) t f d = Some a"
    by (cases "posting (s_index s) t f d") (simp_all add: frequency_def)
  then obtain indexData fi where get: "map_of (s_index s) t = Some indexData"
    and getf: "map_of indexData f = Some fi" and getd: "map_of fi d = Some a"
    by (rule posting_SomeD)
  have a53: "a < 2 ^ 53" using safe p by blast
  note safe = safe [rule_format]
  have a1: "1 \<le> a" using inv p posting_positive by blast
  have sub: "number_subtract a 1 = a - 1"
    using a53 a1 by (intro number_subtract_exact) simp
  let ?idx = "if removed f d a fi indexData = [] then sm_delete t (s_index s)
              else sm_set t (removed f d a fi indexData) (s_index s)"
  have run: "removeTerm f d t s = Inr (s\<lparr>s_index := ?idx\<rparr>)"
    by (rule removeTerm_found [OF get getf getd])
  have "fields_inv indexData" using inv get index_inv_get by blast
  then have inv': "index_inv ?idx"
    using inv removed_inv [OF _ getf getd] by (simp add: index_inv_set index_inv_delete)
  have freq: "frequency ?idx t' f' d =
        frequency (s_index s) t' f' d - (if (f', t') = (f, t) then 1 else 0)" for t' f'
    by (rule frequency_removed [OF inv get getf getd a53])
  have other: "posting ?idx t' f' d' = posting (s_index s) t' f' d'" if "d' \<noteq> d" for t' f' d'
    using that by (simp only: posting_removed [OF get getf getd]) simp
  have safe': "n < 2 ^ 53" if "posting ?idx t' f' d' = Some n" for t' f' d' n
  proof (cases "t' = t \<and> f' = f \<and> d' = d")
    case True
    then have "n = a - 1"
      using that by (simp only: posting_removed [OF get getf getd] sub) (simp split: if_splits)
    then show ?thesis using a53 by simp
  next
    case False
    then have "posting (s_index s) t' f' d' = Some n"
      using that by (simp only: posting_removed [OF get getf getd]) simp
    then show ?thesis by (rule safe)
  qed
  show ?thesis
    using inv' freq other safe' by (simp add: run)
qed

lemma remove_all:
  assumes "index_inv (s_index s)"
    and "\<forall>t f d n. posting (s_index s) t f d = Some n \<longrightarrow> n < 2 ^ 53"
    and "\<And>f t. count (mset ps) (f, t) \<le> frequency (s_index s) t f d"
  shows "\<exists>s'. applyOps (map (\<lambda>(f, t). RemoveTerm f d t) ps) s = Inr s' \<and>
     index_inv (s_index s') \<and> s_logged s' = s_logged s \<and>
     (\<forall>t f d' n. posting (s_index s') t f d' = Some n \<longrightarrow> n < 2 ^ 53) \<and>
     (\<forall>t f. frequency (s_index s') t f d = frequency (s_index s) t f d - count (mset ps) (f, t)) \<and>
     (\<forall>t f d'. d' \<noteq> d \<longrightarrow> posting (s_index s') t f d' = posting (s_index s) t f d')"
  using assms
proof (induction ps arbitrary: s)
  case Nil
  then show ?case by simp
next
  case (Cons p ps)
  obtain f t where p: "p = (f, t)" by (cases p)
  have "0 < frequency (s_index s) t f d"
    using Cons.prems(3) [of f t] by (simp add: p)
  from removeTerm_step [OF Cons.prems(1,2) this]
  obtain s1 where run1: "removeTerm f d t s = Inr s1" and inv1: "index_inv (s_index s1)"
    and log1: "s_logged s1 = s_logged s"
    and safe1: "\<forall>t' f' d' n. posting (s_index s1) t' f' d' = Some n \<longrightarrow> n < 2 ^ 53"
    and freq1: "\<And>t' f'. frequency (s_index s1) t' f' d =
        frequency (s_index s) t' f' d - (if (f', t') = (f, t) then 1 else 0)"
    and other1: "\<And>t' f' d'. d' \<noteq> d \<Longrightarrow> posting (s_index s1) t' f' d' = posting (s_index s) t' f' d'"
    by blast
  have le: "count (mset ps) (f', t') \<le> frequency (s_index s1) t' f' d" for f' t'
    using Cons.prems(3) [of f' t'] by (auto simp: freq1 p)
  from Cons.IH [OF inv1 safe1 le]
  obtain s' where run: "applyOps (map (\<lambda>(f, t). RemoveTerm f d t) ps) s1 = Inr s'"
    and inv': "index_inv (s_index s')" and log': "s_logged s' = s_logged s1"
    and safe': "\<forall>t f d' n. posting (s_index s') t f d' = Some n \<longrightarrow> n < 2 ^ 53"
    and freq': "\<And>t f. frequency (s_index s') t f d =
        frequency (s_index s1) t f d - count (mset ps) (f, t)"
    and other': "\<And>t f d'. d' \<noteq> d \<Longrightarrow> posting (s_index s') t f d' = posting (s_index s1) t f d'"
    by blast
  have "applyOps (map (\<lambda>(f, t). RemoveTerm f d t) (p # ps)) s = Inr s'"
    by (simp add: p run1 run)
  moreover have "frequency (s_index s') t' f' d =
      frequency (s_index s) t' f' d - count (mset (p # ps)) (f', t')" for t' f'
    by (auto simp: freq' freq1 p)
  ultimately show ?case
    using inv' log' log1 other' other1 safe' by auto
qed

lemma index_safe_posting:
  assumes "index_safe idx" and "posting idx t f d = Some n"
  shows "n < 2 ^ 53"
proof -
  from assms(2) obtain indexData fi where "map_of idx t = Some indexData"
    and "map_of indexData f = Some fi" and "map_of fi d = Some n"
    by (rule posting_SomeD)
  then have "(t, indexData) \<in> set idx" and "(f, fi) \<in> set indexData" and "(d, n) \<in> set fi"
    by (auto dest: map_of_SomeD)
  then show ?thesis
    using assms(1) by (fastforce simp: index_safe_def list_all_iff)
qed

lemma posting_index_safe:
  assumes inv: "index_inv idx"
    and safe: "\<And>t f d n. posting idx t f d = Some n \<Longrightarrow> n < 2 ^ 53"
  shows "index_safe idx"
proof -
  have "n < 2 ^ 53"
    if t: "(t, indexData) \<in> set idx" and f: "(f, fi) \<in> set indexData" and d: "(d, n) \<in> set fi"
    for t indexData f fi d n
  proof -
    have get: "map_of idx t = Some indexData"
      using inv t by (simp add: index_inv_def)
    then have "fields_inv indexData" using inv index_inv_get by blast
    then have getf: "map_of indexData f = Some fi"
      using f by (simp add: fields_inv_def)
    then have "freqs_inv fi" using \<open>fields_inv indexData\<close> fields_inv_get by blast
    then have "map_of fi d = Some n"
      using d by (simp add: freqs_inv_def)
    then have "posting idx t f d = Some n"
      using get getf by (simp add: posting_def sm_get_def)
    then show ?thesis by (rule safe)
  qed
  then show ?thesis
    by (fastforce simp: index_safe_def list_all_iff)
qed

lemma count_fieldPostings:
  assumes "distinct (map fst indexData)"
  shows "count (mset (concat (map (\<lambda>(f, fi).
           (case Map_get fi d of None \<Rightarrow> [] | Some n \<Rightarrow> replicate (nat n) (f, t))) indexData)))
           (f', t') =
         (if t' = t then (case fieldPosting indexData f' d of None \<Rightarrow> 0 | Some n \<Rightarrow> nat n) else 0)"
  using assms
proof (induction indexData)
  case Nil
  then show ?case by (simp add: fieldPosting_def)
next
  case (Cons p rest)
  obtain f0 fi0 where p: "p = (f0, fi0)" by (cases p)
  have absent: "fieldPosting rest f0 d = None"
    using Cons.prems by (simp add: p fieldPosting_def map_of_eq_None_iff [THEN iffD2])
  have here: "fieldPosting ((f0, fi0) # rest) f' d =
      (if f' = f0 then Map_get fi0 d else fieldPosting rest f' d)"
    by (simp add: fieldPosting_def)
  have IH: "count (mset (concat (map (\<lambda>(f, fi).
           (case Map_get fi d of None \<Rightarrow> [] | Some n \<Rightarrow> replicate (nat n) (f, t))) rest)))
           (f', t') =
         (if t' = t then (case fieldPosting rest f' d of None \<Rightarrow> 0 | Some n \<Rightarrow> nat n) else 0)"
    using Cons by simp
  show ?case
    unfolding p using absent
    by (cases "Map_get fi0 d") (auto simp: here IH)
qed

lemma frequency_Cons:
  "frequency ((t0, indexData) # idx) t f d =
     (if t = t0 then (case fieldPosting indexData f d of None \<Rightarrow> 0 | Some n \<Rightarrow> nat n)
      else frequency idx t f d)"
  by (simp add: frequency_def posting_fieldPosting)

lemma frequency_absent: "map_of idx t = None \<Longrightarrow> frequency idx t f d = 0"
  by (simp add: frequency_def posting_def sm_get_def)

lemma count_docPostings:
  assumes "distinct (map fst idx)"
    and "list_all (\<lambda>(t, indexData). distinct (map fst indexData)) idx"
  shows "count (mset (docPostings idx d)) (f, t) = frequency idx t f d"
  using assms
proof (induction idx)
  case Nil
  then show ?case by (simp add: docPostings_def frequency_def posting_def sm_get_def)
next
  case (Cons p rest)
  obtain t0 indexData where p: "p = (t0, indexData)" by (cases p)
  have rest: "count (mset (docPostings rest d)) (f, t) = frequency rest t f d"
    using Cons by simp
  have absent: "frequency rest t0 f d = 0"
    using Cons.prems(1) by (simp add: p frequency_absent map_of_eq_None_iff [THEN iffD2])
  have dist: "distinct (map fst indexData)"
    using Cons.prems(2) by (simp add: p)
  have split: "docPostings ((t0, indexData) # rest) d =
      concat (map (\<lambda>(f, fi).
        (case Map_get fi d of None \<Rightarrow> [] | Some n \<Rightarrow> replicate (nat n) (f, t0))) indexData)
      @ docPostings rest d"
    by (simp add: docPostings_def)
  show ?case
    unfolding p using absent
    by (simp add: split count_fieldPostings [OF dist] rest frequency_Cons)
qed

lemma index_inv_distinct:
  assumes "index_inv idx"
  shows "distinct (map fst idx)" and "list_all (\<lambda>(t, indexData). distinct (map fst indexData)) idx"
  using assms by (auto simp: index_inv_def fields_inv_def list_all_iff)

lemma length_update_new:
  "map_of al k = None \<Longrightarrow> length (AList.update k v al) = Suc (length al)"
  by (induction al) (auto split: if_splits)

lemma addTerm_state:
  "addTerm f d t s = s\<lparr>s_index := s_index (addTerm f d t s)\<rparr>"
  by (simp add: addTerm_def sm_fetch_def Let_def split: option.split prod.split)


lemma number_add_zero_one: "number_add 0 1 = 1"
  by (simp add: number_add_exact)

lemma remove_after_add:
  assumes inv: "index_inv (s_index s)"
    and safe: "\<And>n. posting (s_index s) t f d = Some n \<Longrightarrow> n < 2 ^ 53"
  shows "removeTerm f d t (addTerm f d t s) = Inr s"
proof -
  let ?idx = "s_index s"
  define X where "X =
       (case map_of ?idx t of
          None \<Rightarrow> [(f, [(d, 1)])]
        | Some indexData \<Rightarrow>
            (case map_of indexData f of
               None \<Rightarrow> Map_set f [(d, 1)] indexData
             | Some fi \<Rightarrow>
                 Map_set f (Map_set d (number_add (case map_of fi d of None \<Rightarrow> 0 | Some n \<Rightarrow> n) 1) fi)
                   indexData))"
  have added: "addTerm f d t s = s\<lparr>s_index := sm_set t X ?idx\<rparr>"
    using addTerm_state [of f d t s] by (simp add: addTerm_index X_def)
  have getX: "map_of (s_index (s\<lparr>s_index := sm_set t X ?idx\<rparr>)) t = Some X"
    by (simp add: sm_set_def update_conv')
  have concl: "removeTerm f d t (addTerm f d t s) = Inr s"
    if fi': "map_of X f = Some fi'" and a': "map_of fi' d = Some a'"
      and same: "(if removed f d a' fi' X = [] then sm_delete t (sm_set t X ?idx)
                  else sm_set t (removed f d a' fi' X) (sm_set t X ?idx)) = ?idx"
    for fi' a'
  proof -
    have "(if removed f d a' fi' X = []
           then sm_delete t (s_index (s\<lparr>s_index := sm_set t X ?idx\<rparr>))
           else sm_set t (removed f d a' fi' X) (s_index (s\<lparr>s_index := sm_set t X ?idx\<rparr>))) =
          ?idx"
      using same by (simp cong: if_cong)
    then show ?thesis
      unfolding added removeTerm_found [OF getX fi' a'] by simp
  qed
  show ?thesis
  proof (cases "map_of ?idx t")
    case None
    then have X: "X = [(f, [(d, 1)])]" by (simp add: X_def)
    have "t \<notin> fst ` set ?idx" using None by (simp add: map_of_eq_None_iff)
    then have "sm_delete t (sm_set t X ?idx) = ?idx"
      by (simp add: sm_delete_def sm_set_def delete_update_same)
    then show ?thesis
      by (intro concl [of "[(d, 1)]" 1]) (simp_all add: X removed_def)
  next
    case (Some indexData)
    then have fd: "fields_inv indexData" using inv index_inv_get by blast
    then have ne: "indexData \<noteq> []" by (simp add: fields_inv_def)
    have restore: "sm_set t indexData (sm_set t X ?idx) = ?idx"
      using Some by (simp add: sm_set_def update_triv)
    show ?thesis
    proof (cases "map_of indexData f")
      case None
      then have X: "X = Map_set f [(d, 1)] indexData" using Some by (simp add: X_def)
      have "f \<notin> fst ` set indexData" using None by (simp add: map_of_eq_None_iff)
      then have "removed f d 1 [(d, 1)] X = indexData"
        by (simp add: removed_def X delete_update_same)
      then show ?thesis
        using ne restore by (intro concl [of "[(d, 1)]" 1]) (simp_all add: X update_conv')
    next
      case fi: (Some fi)
      then have fiv: "freqs_inv fi" using fd fields_inv_get by blast
      then have fne: "fi \<noteq> []" by (simp add: freqs_inv_def)
      show ?thesis
      proof (cases "map_of fi d")
        case None
        then have X: "X = Map_set f (Map_set d 1 fi) indexData"
          using Some fi by (simp add: X_def number_add_zero_one)
        have "d \<notin> fst ` set fi" using None by (simp add: map_of_eq_None_iff)
        then have del: "Map_delete d (Map_set d 1 fi) = fi"
          by (simp add: delete_update_same)
        have len: "\<not> length (Map_set d 1 fi) \<le> 1"
          using fne by (simp add: length_update_new [OF None])
        have "removed f d 1 (Map_set d 1 fi) X = indexData"
          using fi len by (simp add: removed_def del X update_triv)
        then show ?thesis
          using ne restore
          by (intro concl [of "Map_set d 1 fi" 1]) (simp_all add: X update_conv')
      next
        case n: (Some n)
        then have n1: "1 \<le> n" using fiv freqs_inv_get by blast
        have "posting (s_index s) t f d = Some n"
          using Some fi n by (simp add: posting_def sm_get_def)
        then have n53: "n < 2 ^ 53" by (rule safe)
        have up: "number_add n 1 = n + 1"
          using n1 n53 by (intro number_add_exact) simp
        have down: "number_subtract (n + 1) 1 = n"
          using n1 n53 number_subtract_exact [of "n + 1" 1] by simp
        have X: "X = Map_set f (Map_set d (n + 1) fi) indexData"
          using Some fi n by (simp add: X_def up)
        have "removed f d (n + 1) (Map_set d (n + 1) fi) X = indexData"
          using n1 fi n by (simp add: removed_def X update_triv down)
        then show ?thesis
          using ne restore
          by (intro concl [of "Map_set d (n + 1) fi" "n + 1"]) (simp_all add: X update_conv')
      qed
    qed
  qed
qed

text \<open>
  Claim C2, as amended. In every index state, when the posting of the term for the field id
  and the document id is missing (the term is absent from the dictionary, or it has no entry
  for the field id, or that entry has none for the document id), \<^verbatim>\<open>removeTerm\<close> returns
  normally, has made exactly one call to the logger, the \<^verbatim>\<open>DocumentChanged\<close> warning for
  this document, field and term, and has changed no posting. The whole state is the one
  before the call except for the logged warning, unless the entry of the term was an empty
  field map: then the final clean-up of \<^verbatim>\<open>removeTerm\<close> also deletes the term from the
  dictionary.
\<close>

theorem C2_removeTerm_missing_posting_warns:
  assumes "posting (s_index s) t f d = None"
  shows "\<exists>s'. removeTerm f d t s = Inr s' \<and>
     s_logged s' = s_logged s @ [(LevelWarn, DocumentChanged d f t, Some ''version_conflict'')] \<and>
     (\<forall>t' f' d'. posting (s_index s') t' f' d' = posting (s_index s) t' f' d') \<and>
     (sm_get (s_index s) t \<noteq> Some [] \<longrightarrow>
        s' = s\<lparr>s_logged := s_logged s @
               [(LevelWarn, DocumentChanged d f t, Some ''version_conflict'')]\<rparr>) \<and>
     (sm_get (s_index s) t = Some [] \<longrightarrow>
        s' = s\<lparr>s_index := sm_delete t (s_index s),
               s_logged := s_logged s @
               [(LevelWarn, DocumentChanged d f t, Some ''version_conflict'')]\<rparr>)"
proof (cases "map_of (s_index s) t")
  case None
  then show ?thesis
    by (simp add: removeTerm_absent warnDocumentChanged_def sm_get_def)
next
  case (Some indexData)
  note warn = removeTerm_warn [OF Some posting_NoneD [OF assms Some]]
  show ?thesis
  proof (cases "indexData = []")
    case True
    have "posting (sm_delete t (s_index s)) t' f' d' = posting (s_index s) t' f' d'" for t' f' d'
    proof (cases "t' = t")
      case True
      have "posting (s_index s) t f' d' = None"
        using Some \<open>indexData = []\<close> by (simp add: posting_def sm_get_def)
      then show ?thesis using True by (simp add: posting_sm_delete)
    next
      case False
      then show ?thesis by (simp add: posting_sm_delete)
    qed
    then show ?thesis
      using Some True by (simp add: warn warnDocumentChanged_def sm_get_def)
  next
    case False
    then show ?thesis
      using Some by (simp add: warn warnDocumentChanged_def sm_get_def)
  qed
qed

theorem C2_removeTerm_missing_posting_warns_witness:
  "posting (s_index exampleLoaded) ''zen'' 1 1 = None \<and>
   sm_get (s_index exampleLoaded) ''zen'' \<noteq> Some [] \<and>
   removeTerm 1 1 ''zen'' exampleLoaded =
     Inr (exampleLoaded\<lparr>s_logged :=
            [(LevelWarn, DocumentChanged 1 1 ''zen'', Some ''version_conflict'')]\<rparr>) \<and>
   posting (s_index exampleEmptyEntry) ''zen'' 0 1 = None \<and>
   sm_get (s_index exampleEmptyEntry) ''zen'' = Some [] \<and>
   removeTerm 0 1 ''zen'' exampleEmptyEntry =
     Inr (exampleEmptyEntry\<lparr>s_index := [],
            s_logged := [(LevelWarn, DocumentChanged 1 0 ''zen'', Some ''version_conflict'')]\<rparr>)"
proof -
  have p: "posting (s_index exampleLoaded) ''zen'' 1 1 = None"
    by (simp add: exampleLoaded_def exampleDictionary_def posting_def sm_get_def)
  have g: "sm_get (s_index exampleLoaded) ''zen'' \<noteq> Some []"
    by (simp add: exampleLoaded_def exampleDictionary_def sm_get_def)
  have l: "s_logged exampleLoaded = []"
    by (simp add: exampleLoaded_def exampleIndex_def)
  from C2_removeTerm_missing_posting_warns [OF p] g
  have first: "removeTerm 1 1 ''zen'' exampleLoaded =
     Inr (exampleLoaded\<lparr>s_logged := s_logged exampleLoaded @
            [(LevelWarn, DocumentChanged 1 1 ''zen'', Some ''version_conflict'')]\<rparr>)"
    by blast
  have p': "posting (s_index exampleEmptyEntry) ''zen'' 0 1 = None"
    by (simp add: exampleEmptyEntry_def posting_def sm_get_def)
  have g': "sm_get (s_index exampleEmptyEntry) ''zen'' = Some []"
    by (simp add: exampleEmptyEntry_def sm_get_def)
  have l': "s_logged exampleEmptyEntry = []"
    by (simp add: exampleEmptyEntry_def exampleIndex_def)
  have d': "sm_delete ''zen'' (s_index exampleEmptyEntry) = []"
    by (simp add: exampleEmptyEntry_def sm_delete_def)
  from C2_removeTerm_missing_posting_warns [OF p']
  obtain s' where run: "removeTerm 0 1 ''zen'' exampleEmptyEntry = Inr s'"
    and "sm_get (s_index exampleEmptyEntry) ''zen'' = Some [] \<longrightarrow>
      s' = exampleEmptyEntry\<lparr>s_index := sm_delete ''zen'' (s_index exampleEmptyEntry),
             s_logged := s_logged exampleEmptyEntry @
               [(LevelWarn, DocumentChanged 1 0 ''zen'', Some ''version_conflict'')]\<rparr>"
    by auto
  then have second: "removeTerm 0 1 ''zen'' exampleEmptyEntry =
     Inr (exampleEmptyEntry\<lparr>s_index := sm_delete ''zen'' (s_index exampleEmptyEntry),
            s_logged := s_logged exampleEmptyEntry @
              [(LevelWarn, DocumentChanged 1 0 ''zen'', Some ''version_conflict'')]\<rparr>)"
    using g' by simp
  show ?thesis
    using p g p' g' first second by (simp add: l l' d')
qed

text \<open>
  The claim as the specification words it fails where the entry of the term is an empty
  field map: the posting is missing, the warning is logged, and the call deletes the term
  from the dictionary.
\<close>

theorem C2_empty_entry_counterexample:
  "s_index exampleEmptyEntry = [(''zen'', [])] \<and>
   posting (s_index exampleEmptyEntry) ''zen'' 0 1 = None \<and>
   removeTerm 0 1 ''zen'' exampleEmptyEntry =
     Inr (exampleEmptyEntry\<lparr>s_index := [],
            s_logged := [(LevelWarn, DocumentChanged 1 0 ''zen'', Some ''version_conflict'')]\<rparr>) \<and>
   s_index exampleEmptyEntry \<noteq> []"
  by (simp add: exampleEmptyEntry_def exampleIndex_def posting_def removeTerm_def sm_has_def
      sm_fetch_def sm_get_def sm_set_def sm_delete_def createMap_def warnDocumentChanged_def)

text \<open>
  Claim C3, as amended. Let the index satisfy the invariant of the data model (no map of the
  index is empty or repeats a key, every frequency is at least 1) with every frequency below
  \<open>2 ^ 53\<close>, and let \<^verbatim>\<open>removeTerm\<close> be called once for every occurrence that the index
  records for a document (its postings, each as often as its frequency, in any order). The
  calls run without an exception and without a warning; afterwards the document has no
  posting left, every posting of another document is unchanged, and the dictionary holds
  exactly the terms that had a posting of another document: a term whose only postings were
  the document's is deleted from the dictionary, a shared term stays. The invariant and the
  bound hold again. In particular \<^verbatim>\<open>removeTerm\<close> straight after \<^verbatim>\<open>addTerm\<close> of the same
  field, document and term gives back the state before the two calls.
\<close>

theorem C3_removing_a_document:
  assumes inv: "index_inv (s_index s)" and safe: "index_safe (s_index s)"
    and ps: "mset ps = mset (docPostings (s_index s) d)"
  shows "(\<exists>s'. applyOps (map (\<lambda>(f, t). RemoveTerm f d t) ps) s = Inr s' \<and>
       index_inv (s_index s') \<and> index_safe (s_index s') \<and> s_logged s' = s_logged s \<and>
       (\<forall>t f. posting (s_index s') t f d = None) \<and>
       (\<forall>t f d'. d' \<noteq> d \<longrightarrow> posting (s_index s') t f d' = posting (s_index s) t f d') \<and>
       (\<forall>t. sm_has (s_index s') t \<longleftrightarrow> (\<exists>f d'. d' \<noteq> d \<and> posting (s_index s) t f d' \<noteq> None))) \<and>
     removeTerm f0 d0 t0 (addTerm f0 d0 t0 s) = Inr s"
proof -
  have bound: "n < 2 ^ 53" if "posting (s_index s) t f d' = Some n" for t f d' n
    using safe that by (rule index_safe_posting)
  then have all: "\<forall>t f d' n. posting (s_index s) t f d' = Some n \<longrightarrow> n < 2 ^ 53"
    by blast
  have cnt: "count (mset ps) (f, t) = frequency (s_index s) t f d" for f t
    using count_docPostings [OF index_inv_distinct [OF inv]] by (simp add: ps)
  then have "\<And>f t. count (mset ps) (f, t) \<le> frequency (s_index s) t f d" by simp
  from remove_all [OF inv all this]
  obtain s' where run: "applyOps (map (\<lambda>(f, t). RemoveTerm f d t) ps) s = Inr s'"
    and inv': "index_inv (s_index s')" and log': "s_logged s' = s_logged s"
    and bound': "\<forall>t f d' n. posting (s_index s') t f d' = Some n \<longrightarrow> n < 2 ^ 53"
    and freq': "\<And>t f. frequency (s_index s') t f d =
        frequency (s_index s) t f d - count (mset ps) (f, t)"
    and other': "\<And>t f d'. d' \<noteq> d \<Longrightarrow> posting (s_index s') t f d' = posting (s_index s) t f d'"
    by blast
  have safe': "index_safe (s_index s')"
    using inv' bound' [rule_format] by (rule posting_index_safe)
  have gone: "posting (s_index s') t f d = None" for t f
  proof (cases "posting (s_index s') t f d")
    case None
    then show ?thesis .
  next
    case (Some a)
    then have "1 \<le> a" using inv' posting_positive by blast
    moreover have "frequency (s_index s') t f d = 0" by (simp add: freq' cnt)
    ultimately show ?thesis using Some by (simp add: frequency_def)
  qed
  have has: "sm_has (s_index s') t \<longleftrightarrow> (\<exists>f d'. d' \<noteq> d \<and> posting (s_index s) t f d' \<noteq> None)" for t
  proof -
    have "sm_has (s_index s') t \<longleftrightarrow> (\<exists>f d'. posting (s_index s') t f d' \<noteq> None)"
      by (rule has_iff_posting [OF inv'])
    also have "\<dots> \<longleftrightarrow> (\<exists>f d'. d' \<noteq> d \<and> posting (s_index s') t f d' \<noteq> None)"
      using gone by metis
    also have "\<dots> \<longleftrightarrow> (\<exists>f d'. d' \<noteq> d \<and> posting (s_index s) t f d' \<noteq> None)"
      using other' by metis
    finally show ?thesis .
  qed
  have rt: "removeTerm f0 d0 t0 (addTerm f0 d0 t0 s) = Inr s"
    using inv bound by (rule remove_after_add)
  show ?thesis
    using run inv' safe' log' gone other' has rt by blast
qed

text \<open>
  The claim as the specification words it asks only that every term of the dictionary have a
  posting, and it fails in two ways. Beside the posting of document 1, the entry of the term
  may hold an empty posting map: the removal takes the document's posting away and the
  term, now without any posting, stays in the dictionary. And a frequency of \<open>2 ^ 53\<close> is
  not raised by \<^verbatim>\<open>addTerm\<close>, so \<^verbatim>\<open>removeTerm\<close> after it leaves \<open>2 ^ 53 - 1\<close>.
\<close>

theorem C3_dictionary_invariant_counterexample:
  "posting (s_index exampleEmptyField) ''zen'' 0 1 = Some 1 \<and>
   docPostings (s_index exampleEmptyField) 1 = [(0, ''zen'')] \<and>
   applyOps [RemoveTerm 0 1 ''zen''] exampleEmptyField =
     Inr (exampleIndex\<lparr>s_index := [(''zen'', [(1, [])])]\<rparr>) \<and>
   sm_has [(''zen'', [(1, [])])] ''zen'' \<and>
   index_inv (s_index exampleSaturated) \<and>
   removeTerm 0 1 ''zen'' (addTerm 0 1 ''zen'' exampleSaturated) =
     Inr (exampleIndex\<lparr>s_index := [(''zen'', [(0, [(1, 9007199254740991)])])]\<rparr>) \<and>
   exampleSaturated \<noteq> exampleIndex\<lparr>s_index := [(''zen'', [(0, [(1, 9007199254740991)])])]\<rparr>"
proof -
  have up: "number_add 9007199254740992 1 = 9007199254740992"
    using toDouble_tie by (simp add: number_add_def)
  have down: "number_subtract 9007199254740992 1 = 9007199254740991"
    by (simp add: number_subtract_exact)
  have a: "posting (s_index exampleEmptyField) ''zen'' 0 1 = Some 1"
    by (simp add: exampleEmptyField_def posting_def sm_get_def)
  have b: "docPostings (s_index exampleEmptyField) 1 = [(0, ''zen'')]"
    by (simp add: exampleEmptyField_def docPostings_def)
  have c: "applyOps [RemoveTerm 0 1 ''zen''] exampleEmptyField =
     Inr (exampleIndex\<lparr>s_index := [(''zen'', [(1, [])])]\<rparr>)"
    by (simp add: exampleEmptyField_def exampleIndex_def removeTerm_def sm_has_def
        sm_fetch_def sm_get_def sm_set_def sm_delete_def createMap_def)
  have d: "sm_has [(''zen'', [(1, [])])] ''zen''"
    by (simp add: sm_has_def)
  have e: "index_inv (s_index exampleSaturated)"
    by (simp add: exampleSaturated_def index_inv_def fields_inv_def freqs_inv_def)
  have f: "removeTerm 0 1 ''zen'' (addTerm 0 1 ''zen'' exampleSaturated) =
     Inr (exampleIndex\<lparr>s_index := [(''zen'', [(0, [(1, 9007199254740991)])])]\<rparr>)"
    by (simp add: exampleSaturated_def exampleIndex_def addTerm_def removeTerm_def sm_has_def
        sm_fetch_def sm_get_def sm_set_def sm_delete_def createMap_def up down)
  have g: "exampleSaturated \<noteq>
      exampleIndex\<lparr>s_index := [(''zen'', [(0, [(1, 9007199254740991)])])]\<rparr>"
    by (simp add: exampleSaturated_def exampleIndex_def)
  show ?thesis
    using a b c d e f g by simp
qed

theorem C3_removing_a_document_witness:
  "index_inv (s_index exampleLoaded) \<and> index_safe (s_index exampleLoaded) \<and>
   mset [(0, ''art''), (0, ''zen''), (0, ''art'')] = mset (docPostings (s_index exampleLoaded) 1) \<and>
   (2::int) \<noteq> 1 \<and>
   (\<exists>s'. applyOps [RemoveTerm 0 1 ''art'', RemoveTerm 0 1 ''zen'', RemoveTerm 0 1 ''art'']
           exampleLoaded = Inr s' \<and>
      posting (s_index s') ''zen'' 0 1 = None \<and>
      posting (s_index s') ''zen'' 0 2 = Some 1 \<and>
      sm_has (s_index s') ''zen'' \<and>
      \<not> sm_has (s_index s') ''art'') \<and>
   removeTerm 0 3 ''art'' (addTerm 0 3 ''art'' exampleLoaded) = Inr exampleLoaded"
proof -
  have idx: "s_index exampleLoaded = exampleDictionary"
    by (simp add: exampleLoaded_def)
  have inv: "index_inv (s_index exampleLoaded)"
    by (simp add: idx exampleDictionary_def index_inv_def fields_inv_def freqs_inv_def)
  have ps: "mset [(0, ''art''), (0, ''zen''), (0, ''art'')] =
      mset (docPostings (s_index exampleLoaded) 1)"
    by (simp add: idx exampleDictionary_def docPostings_def numeral_2_eq_2)
  have zen: "posting (s_index exampleLoaded) ''zen'' 0 2 = Some 1"
    by (simp add: idx exampleDictionary_def posting_def sm_get_def)
  have art: "\<not> (\<exists>f d'. d' \<noteq> 1 \<and> posting (s_index exampleLoaded) ''art'' f d' \<noteq> None)"
    by (auto simp: idx exampleDictionary_def posting_def sm_get_def split: if_splits)
  have safe: "index_safe (s_index exampleLoaded)"
    by (simp add: idx exampleDictionary_def index_safe_def)
  from C3_removing_a_document [OF inv safe ps, of 0 3 "''art''"]
  obtain s' where
      run: "applyOps (map (\<lambda>(f, t). RemoveTerm f 1 t) [(0, ''art''), (0, ''zen''), (0, ''art'')])
              exampleLoaded = Inr s'"
    and gone: "\<forall>t f. posting (s_index s') t f 1 = None"
    and other: "\<forall>t f d'. d' \<noteq> 1 \<longrightarrow> posting (s_index s') t f d' = posting (s_index exampleLoaded) t f d'"
    and has: "\<forall>t. sm_has (s_index s') t \<longleftrightarrow>
        (\<exists>f d'. d' \<noteq> 1 \<and> posting (s_index exampleLoaded) t f d' \<noteq> None)"
    and rt: "removeTerm 0 3 ''art'' (addTerm 0 3 ''art'' exampleLoaded) = Inr exampleLoaded"
    by blast
  have "posting (s_index s') ''zen'' 0 2 = Some 1"
    using other zen by simp
  moreover have "sm_has (s_index s') ''zen''"
  proof -
    have "(2::int) \<noteq> 1 \<and> posting (s_index exampleLoaded) ''zen'' 0 2 \<noteq> None"
      using zen by simp
    then show ?thesis using has by blast
  qed
  moreover have "\<not> sm_has (s_index s') ''art''"
    using has art by blast
  ultimately show ?thesis
    using inv safe ps run gone rt by auto
qed

section \<open>The dirt factor\<close>

lemma divide_number_quarter: "divide_number 1 4 = Finite (1 / 4)"
  using roundNumber_quarter by (simp add: divide_number_def)

lemma divide_number_same: "divide_number 9007199254740992 9007199254740992 = Finite 1"
  using roundNumber_one by (simp add: divide_number_def)

text \<open>
  Claim C9, as amended. When the two counts are non-negative and
  \<open>1 + documentCount + dirtCount\<close> is at most \<open>2 ^ 53\<close>, the divisor that the getter
  \<^verbatim>\<open>dirtFactor\<close> computes is exactly that sum, which is at least 1, and the getter returns
  \<^verbatim>\<open>dirtCount / (1 + documentCount + dirtCount)\<close> as the division of doubles gives it: a
  finite number in the interval from 0, included, to 1, excluded, at a distance of at most
  \<open>2 ^ - 54\<close> from the exact quotient.
\<close>

theorem C9_dirtFactor_range:
  assumes "0 \<le> s_documentCount s" and "0 \<le> s_dirtCount s"
    and "1 + s_documentCount s + s_dirtCount s \<le> 2 ^ 53"
  shows "1 \<le> 1 + s_documentCount s + s_dirtCount s \<and>
     number_add (number_add 1 (s_documentCount s)) (s_dirtCount s) =
       1 + s_documentCount s + s_dirtCount s \<and>
     dirtFactor s = divide_number (s_dirtCount s) (1 + s_documentCount s + s_dirtCount s) \<and>
     (\<exists>r. dirtFactor s = Finite r \<and> 0 \<le> r \<and> r < 1 \<and>
        \<bar>r - real_of_int (s_dirtCount s) /
               real_of_int (1 + s_documentCount s + s_dirtCount s)\<bar> \<le> 1 / 2 ^ 54)"
proof -
  define n where "n = s_dirtCount s"
  define d where "d = 1 + s_documentCount s + s_dirtCount s"
  have n0: "0 \<le> n" and nd: "n < d" and d1: "1 \<le> d" and d53: "d \<le> 2 ^ 53"
    using assms by (simp_all add: n_def d_def)
  have "number_add 1 (s_documentCount s) = 1 + s_documentCount s"
    using assms by (intro number_add_exact) simp
  moreover have "number_add (1 + s_documentCount s) (s_dirtCount s) = d"
    unfolding d_def using assms by (intro number_add_exact) simp
  ultimately have divisor: "number_add (number_add 1 (s_documentCount s)) (s_dirtCount s) = d"
    by simp
  have "\<bar>d\<bar> \<le> 2 ^ 53" using d1 d53 by simp
  moreover have "(2::int) ^ 53 < 2 ^ 1024" by (rule power_strict_increasing) simp_all
  ultimately have small: "\<not> 2 ^ 1024 \<le> \<bar>d\<bar>" by linarith
  have run: "dirtFactor s = divide_number n d"
    using small by (simp add: dirtFactor_def divisor n_def Let_def)
  have "\<exists>r. divide_number n d = Finite r \<and> 0 \<le> r \<and> r < 1 \<and>
      \<bar>r - real_of_int n / real_of_int d\<bar> \<le> 1 / 2 ^ 54"
  proof (cases "n = 0")
    case True
    then show ?thesis using d1 by (simp add: divide_number_def roundNumber_def)
  next
    case False
    then have "0 < n" using n0 by simp
    from divide_number_range [OF this nd d53]
    obtain r where r: "divide_number n d = Finite r \<and> 0 \<le> r \<and> r \<le> 1 - 1 / 2 ^ 53 \<and>
        \<bar>r - real_of_int n / real_of_int d\<bar> \<le> 1 / 2 ^ 54" ..
    then have "r < 1" by simp
    then show ?thesis using r by (intro exI [of _ r]) simp
  qed
  then show ?thesis
    using d1 divisor run unfolding n_def d_def by simp
qed

theorem C9_dirtFactor_range_witness:
  "(0::int) \<le> 2 \<and> (0::int) \<le> 1 \<and> (1::int) + 2 + 1 \<le> 2 ^ 53 \<and>
   dirtFactor (exampleIndex\<lparr>s_documentCount := 2, s_dirtCount := 1\<rparr>) = Finite (1 / 4) \<and>
   (0::real) \<le> 1 / 4 \<and> (1::real) / 4 < 1"
proof -
  have "dirtFactor (exampleIndex\<lparr>s_documentCount := 2, s_dirtCount := 1\<rparr>) = divide_number 1 4"
    using C9_dirtFactor_range [of "exampleIndex\<lparr>s_documentCount := 2, s_dirtCount := 1\<rparr>"]
    by simp
  then show ?thesis by (simp add: divide_number_quarter)
qed

text \<open>
  The claim as the specification words it, for all non-negative counts, fails at large
  counts: with no document and a dirt count of \<open>2 ^ 53\<close> the sum \<open>1 + 0 + 2 ^ 53\<close> rounds
  to \<open>2 ^ 53\<close>, and the getter returns 1, which is outside the interval.
\<close>

theorem C9_large_counts_counterexample:
  "(0::int) \<le> 0 \<and> (0::int) \<le> 9007199254740992 \<and>
   dirtFactor (exampleIndex\<lparr>s_documentCount := 0, s_dirtCount := 9007199254740992\<rparr>) = Finite 1 \<and>
   \<not> (1::real) < 1"
proof -
  have one: "number_add 1 0 = 1"
    by (simp add: number_add_exact)
  have sum: "number_add 1 9007199254740992 = 9007199254740992"
    using toDouble_tie by (simp add: number_add_def)
  have "(9007199254740992::int) = 2 ^ 53" by simp
  moreover have "(2::int) ^ 53 < 2 ^ 1024" by (rule power_strict_increasing) simp_all
  ultimately have small: "\<not> (2::int) ^ 1024 \<le> 9007199254740992" by linarith
  show ?thesis
    using small by (simp add: dirtFactor_def one sum divide_number_same)
qed

section \<open>Construction\<close>

lemma constructor_missing:
  \<open>(case options of None \<Rightarrow> True | Some opts \<Rightarrow> o_fields opts = None) \<Longrightarrow>
   SearchIndex_constructor defaults options =
     Inl (Error ''SlimSearch: option "fields" must be provided'')\<close>
  by (cases options) (simp_all add: SearchIndex_constructor_def)

lemma constructor_given:
  assumes "options = Some opts" and "o_fields opts = Some flds"
  shows "\<exists>s. SearchIndex_constructor defaults options = Inr s \<and> s_index s = [] \<and>
     o_searchOptions (s_options s) =
       Some (spreadSearchOptions (defaultSearchOptions defaults) (o_searchOptions opts))"
  using assms by (simp add: SearchIndex_constructor_def addFields_def Let_def)

text \<open>
  Claim C8, as amended. Constructing an index without options, or with options that lack
  \<^verbatim>\<open>fields\<close>, throws an exception whose message starts with \<^verbatim>\<open>SlimSearch: \<close>, and no index
  state is created. The constructor validates nothing else: with \<^verbatim>\<open>fields\<close> given it
  returns an index with an empty dictionary whose default search options are the given ones
  spread over the library defaults, whatever the BM25 parameters among them are.
\<close>

theorem C8_constructor_requires_fields:
  \<open>((case options of None \<Rightarrow> True | Some opts \<Rightarrow> o_fields opts = None) \<longrightarrow>
      SearchIndex_constructor defaults options =
        Inl (Error (''SlimSearch: '' @ ''option "fields" must be provided''))) \<and>
   (\<forall>opts flds. options = Some opts \<and> o_fields opts = Some flds \<longrightarrow>
      (\<exists>s. SearchIndex_constructor defaults options = Inr s \<and> s_index s = [] \<and>
         o_searchOptions (s_options s) =
           Some (spreadSearchOptions (defaultSearchOptions defaults) (o_searchOptions opts))))\<close>
  using constructor_missing [of options defaults] constructor_given [of options _ _ defaults]
  by auto

theorem C8_constructor_requires_fields_witness:
  \<open>o_fields exampleOptions = Some [''title'', ''text''] \<and>
   SearchIndex_constructor exampleDefaults None =
     Inl (Error ''SlimSearch: option "fields" must be provided'') \<and>
   (\<exists>s. SearchIndex_constructor exampleDefaults (Some exampleOptions) = Inr s \<and> s_index s = [])\<close>
  using C8_constructor_requires_fields [of None exampleDefaults]
    C8_constructor_requires_fields [of "Some exampleOptions" exampleDefaults]
  by (auto simp: exampleOptions_def)

text \<open>The claim as stated fails: negative BM25 parameters do not make the constructor
  throw. It returns the index of the example, with the negative parameters as its default
  search options.\<close>

theorem C8_negative_bm25_counterexample:
  "SearchIndex_constructor exampleDefaults
     (Some (exampleOptions\<lparr>o_searchOptions :=
        Some (noSearchOptions\<lparr>so_bm25 := Some \<lparr>bm25_k = - 1, bm25_b = - 1, bm25_d = - 1\<rparr>\<rparr>)\<rparr>)) =
   Inr (exampleIndex\<lparr>s_options := (s_options exampleIndex)\<lparr>o_searchOptions :=
          Some (exampleSearchOptions\<lparr>so_bm25 := Some \<lparr>bm25_k = - 1, bm25_b = - 1, bm25_d = - 1\<rparr>\<rparr>)\<rparr>\<rparr>)"
  by (simp add: SearchIndex_constructor_def exampleDefaults_def exampleOptions_def exampleIndex_def
      noSearchOptions_def exampleSearchOptions_def spreadSearchOptions_def orElse_def addFields_def)

section \<open>Serialisation\<close>

lemma digitsValue_digits: "digitsValue (digits n) = n"
proof (induction n rule: digits.induct)
  case (1 n)
  show ?case
  proof (cases "n < 10")
    case True
    then show ?thesis
      by (subst digits.simps) (simp add: digitsValue_def)
  next
    case False
    have "digitsValue (digits n) = 10 * digitsValue (digits (n div 10)) + n mod 10"
      using False by (subst digits.simps) (simp add: digitsValue_def)
    then show ?thesis using 1 False by simp
  qed
qed

lemma digits_inj: "digits m = digits n \<Longrightarrow> m = n"
  using digitsValue_digits by metis

lemma digits_chars: "c \<in> set (digits n) \<Longrightarrow> (48::nat) \<le> of_char c"
proof (induction n rule: digits.induct)
  case (1 n)
  show ?case
  proof (cases "n < 10")
    case True
    then show ?thesis
      using 1(2) by (subst (asm) digits.simps) auto
  next
    case False
    then have "c \<in> set (digits (n div 10)) \<or> c = char_of (48 + n mod 10)"
      using 1(2) by (subst (asm) digits.simps) auto
    then show ?thesis
    proof
      assume "c \<in> set (digits (n div 10))"
      then show ?thesis using 1(1) False by simp
    next
      assume c: "c = char_of (48 + n mod 10)"
      have "n mod 10 < 10" by simp
      then show ?thesis unfolding c by simp
    qed
  qed
qed

lemma minus_not_digit: "CHR ''-'' \<notin> set (digits n)"
  using digits_chars [of "CHR ''-''" n] by auto

lemma ToString_inj: "ToString i = ToString j \<Longrightarrow> i = j"
proof -
  assume eq: "ToString i = ToString j"
  consider "i < 0" "j < 0" | "i < 0" "0 \<le> j" | "0 \<le> i" "j < 0" | "0 \<le> i" "0 \<le> j"
    by linarith
  then show ?thesis
  proof cases
    case 1
    then have "digits (nat (- i)) = digits (nat (- j))" using eq by (simp add: ToString_def)
    then have "nat (- i) = nat (- j)" by (rule digits_inj)
    then show ?thesis using 1 by simp
  next
    case 2
    then have "CHR ''-'' # digits (nat (- i)) = digits (nat j)"
      using eq by (simp add: ToString_def)
    then have "CHR ''-'' \<in> set (digits (nat j))" by (metis list.set_intros(1))
    then show ?thesis using minus_not_digit by blast
  next
    case 3
    then have "digits (nat i) = CHR ''-'' # digits (nat (- j))"
      using eq by (simp add: ToString_def)
    then have "CHR ''-'' \<in> set (digits (nat i))" by (metis list.set_intros(1))
    then show ?thesis using minus_not_digit by blast
  next
    case 4
    then have "digits (nat i) = digits (nat j)" using eq by (simp add: ToString_def)
    then have "nat i = nat j" by (rule digits_inj)
    then show ?thesis using 4 by simp
  qed
qed

lemma ToString_eq_iff [simp]: "ToString i = ToString j \<longleftrightarrow> i = j"
  using ToString_inj by blast


lemma fold_put:
  assumes "distinct (map fst entries)"
  shows "fold (\<lambda>(key, v) obj. obj(ToString key \<mapsto> g v)) entries m (ToString k) =
     (case map_of entries k of Some v \<Rightarrow> Some (g v) | None \<Rightarrow> m (ToString k))"
  using assms
proof (induction entries arbitrary: m)
  case Nil
  then show ?case by simp
next
  case (Cons p rest)
  obtain k0 v0 where p: "p = (k0, v0)" by (cases p)
  have "map_of rest k0 = None"
    using Cons.prems by (simp add: p map_of_eq_None_iff)
  then show ?case
    using Cons by (simp add: p)
qed

lemma fold_put_dom:
  "dom (fold (\<lambda>(key, v) obj. obj(ToString key \<mapsto> g v)) entries m) =
     dom m \<union> ToString ` fst ` set entries"
  by (induction entries arbitrary: m) auto

lemma fromEntries_lookup:
  "distinct (map fst entries) \<Longrightarrow> Object_fromEntries entries (ToString k) = map_of entries k"
  using fold_put [of entries "\<lambda>v. v" Map.empty k]
  by (simp add: Object_fromEntries_def split: option.split)

lemma fromEntries_dom: "dom (Object_fromEntries entries) = ToString ` fst ` set entries"
  using fold_put_dom [of "\<lambda>v. v" entries Map.empty] by (simp add: Object_fromEntries_def)

lemma serializedFields_lookup:
  "distinct (map fst fieldIndex) \<Longrightarrow>
   serializedFields fieldIndex (ToString f) = map_option Object_fromEntries (map_of fieldIndex f)"
  using fold_put [of fieldIndex Object_fromEntries Map.empty f]
  by (simp add: serializedFields_def split: option.split)

lemma serializedFields_dom: "dom (serializedFields fieldIndex) = ToString ` fst ` set fieldIndex"
  using fold_put_dom [of Object_fromEntries fieldIndex Map.empty]
  by (simp add: serializedFields_def)

lemma fold_push:
  "fold (\<lambda>(term, fieldIndex) index. index @ [(term, h fieldIndex)]) es acc =
     acc @ map (\<lambda>(term, fieldIndex). (term, h fieldIndex)) es"
  by (induction es arbitrary: acc) auto

lemma toJSON_index:
  "index (toJSON s) =
     map (\<lambda>(term, fieldIndex). (term, serializedFields fieldIndex)) (sm_entries (s_index s))"
  using fold_push [of serializedFields "sm_entries (s_index s)" "[]"]
  by (simp add: toJSON_def Let_def serializedFields_def)

lemma sm_entries_keys_distinct:
  "distinct (map fst m) \<Longrightarrow> distinct (map fst (sm_entries m))"
proof -
  have "mset (map fst (sm_entries m)) = mset (map fst m)"
    by (simp add: sm_entries_def)
  then show "distinct (map fst m) \<Longrightarrow> distinct (map fst (sm_entries m))"
    using mset_eq_imp_distinct_iff by blast
qed

lemma sm_entries_lookup:
  assumes "distinct (map fst m)"
  shows "map_of (sm_entries m) = map_of m"
proof
  fix key
  show "map_of (sm_entries m) key = map_of m key"
  proof (cases "map_of m key")
    case None
    then have "key \<notin> fst ` set (sm_entries m)"
      by (simp add: map_of_eq_None_iff sm_entries_def)
    then have "map_of (sm_entries m) key = None"
      by (simp only: map_of_eq_None_iff) simp
    then show ?thesis using None by simp
  next
    case (Some v)
    then have "(key, v) \<in> set (sm_entries m)"
      using assms by (simp add: sm_entries_def)
    then show ?thesis
      using Some sm_entries_keys_distinct [OF assms] by simp
  qed
qed

lemma sm_entries_sorted: "sorted (map fst (sm_entries m))"
  by (simp add: sm_entries_def)

lemma toJSON_lookup:
  assumes "distinct (map fst (s_index s))"
  shows "map_of (index (toJSON s)) t = map_option serializedFields (map_of (s_index s) t)"
proof -
  have "map_of (index (toJSON s)) t = map_option serializedFields (map_of (sm_entries (s_index s)) t)"
    by (simp add: toJSON_index map_of_map)
  then show ?thesis by (simp add: sm_entries_lookup [OF assms])
qed

lemma keys_distinctD:
  assumes "keys_distinct idx"
  shows "distinct (map fst idx)"
    and "map_of idx t = Some fm \<Longrightarrow> distinct (map fst fm)"
    and "map_of idx t = Some fm \<Longrightarrow> map_of fm f = Some fi \<Longrightarrow> distinct (map fst fi)"
proof -
  show d: "distinct (map fst idx)" using assms by (simp add: keys_distinct_def)
  have all: "\<And>t fm. (t, fm) \<in> set idx \<Longrightarrow>
      distinct (map fst fm) \<and> (\<forall>(f, fi) \<in> set fm. distinct (map fst fi))"
    using assms by (auto simp: keys_distinct_def list_all_iff)
  show "distinct (map fst fm)" if "map_of idx t = Some fm"
    using all [of t fm] that by (auto dest: map_of_SomeD)
  show "distinct (map fst fi)" if "map_of idx t = Some fm" "map_of fm f = Some fi"
    using all [of t fm] that by (auto dest!: map_of_SomeD)
qed

text \<open>
  Claim C6. \<^verbatim>\<open>toJSON\<close> returns the record with the ten fields \<^verbatim>\<open>documentCount\<close>, \<^verbatim>\<open>nextId\<close>,
  \<^verbatim>\<open>documentIds\<close>, \<^verbatim>\<open>fieldIds\<close>, \<^verbatim>\<open>fieldLength\<close>, \<^verbatim>\<open>averageFieldLength\<close>, \<^verbatim>\<open>storedFields\<close>,
  \<^verbatim>\<open>dirtCount\<close>, \<^verbatim>\<open>index\<close> and \<^verbatim>\<open>version\<close>, each taken from the state, with \<^verbatim>\<open>version\<close> 2.
  Its \<^verbatim>\<open>index\<close> lists the terms of the dictionary in iteration order, each once; the
  object paired with a term has exactly the field ids of the term as property names, the
  object under a field id has exactly the short document ids of that field, and the number
  under a document id is the frequency that the index holds. (The condition \<^const>\<open>keys_distinct\<close>
  says that the association lists stand for maps: no key twice.)
\<close>

theorem C6_toJSON_format:
  "toJSON s =
       \<lparr>documentCount = s_documentCount s,
        nextId = s_nextId s,
        documentIds = Object_fromEntries (s_documentIds s),
        fieldIds = s_fieldIds s,
        fieldLength = Object_fromEntries (s_fieldLength s),
        averageFieldLength = s_avgFieldLength s,
        storedFields = Object_fromEntries (s_storedFields s),
        dirtCount = s_dirtCount s,
        index = index (toJSON s),
        version = 2\<rparr> \<and>
   map fst (index (toJSON s)) = map fst (sm_entries (s_index s)) \<and>
   set (map fst (index (toJSON s))) = set (map fst (s_index s)) \<and>
   sorted (map fst (index (toJSON s))) \<and>
   (keys_distinct (s_index s) \<longrightarrow>
      distinct (map fst (index (toJSON s))) \<and>
      (\<forall>t f d. serializedPosting (toJSON s) t f d = posting (s_index s) t f d) \<and>
      (\<forall>t fm. sm_get (s_index s) t = Some fm \<longrightarrow>
         (\<exists>data. map_of (index (toJSON s)) t = Some data \<and>
            dom data = ToString ` fst ` set fm \<and>
            (\<forall>f fi. Map_get fm f = Some fi \<longrightarrow>
               (\<exists>entry. data (ToString f) = Some entry \<and>
                  dom entry = ToString ` fst ` set fi \<and>
                  (\<forall>d. entry (ToString d) = Map_get fi d))))))"
proof -
  have shape: "toJSON s =
       \<lparr>documentCount = s_documentCount s,
        nextId = s_nextId s,
        documentIds = Object_fromEntries (s_documentIds s),
        fieldIds = s_fieldIds s,
        fieldLength = Object_fromEntries (s_fieldLength s),
        averageFieldLength = s_avgFieldLength s,
        storedFields = Object_fromEntries (s_storedFields s),
        dirtCount = s_dirtCount s,
        index = index (toJSON s),
        version = 2\<rparr>"
    by (simp add: toJSON_def Let_def)
  have keys: "map fst (index (toJSON s)) = map fst (sm_entries (s_index s))"
    by (simp add: toJSON_index split_def)
  have same: "set (map fst (index (toJSON s))) = set (map fst (s_index s))"
    by (simp add: keys sm_entries_def)
  have order: "sorted (map fst (index (toJSON s)))"
    by (simp add: keys sm_entries_sorted)
  have rest: "distinct (map fst (index (toJSON s))) \<and>
      (\<forall>t f d. serializedPosting (toJSON s) t f d = posting (s_index s) t f d) \<and>
      (\<forall>t fm. sm_get (s_index s) t = Some fm \<longrightarrow>
         (\<exists>data. map_of (index (toJSON s)) t = Some data \<and>
            dom data = ToString ` fst ` set fm \<and>
            (\<forall>f fi. Map_get fm f = Some fi \<longrightarrow>
               (\<exists>entry. data (ToString f) = Some entry \<and>
                  dom entry = ToString ` fst ` set fi \<and>
                  (\<forall>d. entry (ToString d) = Map_get fi d)))))"
    if assms: "keys_distinct (s_index s)"
  proof -
    note kd = keys_distinctD [OF assms]
    have dist: "distinct (map fst (index (toJSON s)))"
      using kd(1) by (simp add: keys sm_entries_keys_distinct)
    have post: "serializedPosting (toJSON s) t f d = posting (s_index s) t f d" for t f d
    proof (cases "map_of (s_index s) t")
      case None
      then show ?thesis
        by (simp add: serializedPosting_def posting_def sm_get_def toJSON_lookup [OF kd(1)])
    next
      case fm: (Some fm)
      show ?thesis
      proof (cases "map_of fm f")
        case None
        then show ?thesis
          using fm kd(2) [OF fm]
          by (simp add: serializedPosting_def posting_def sm_get_def toJSON_lookup [OF kd(1)]
              serializedFields_lookup)
      next
        case (Some fi)
        then show ?thesis
          using fm kd(2) [OF fm] kd(3) [OF fm Some]
          by (simp add: serializedPosting_def posting_def sm_get_def toJSON_lookup [OF kd(1)]
              serializedFields_lookup fromEntries_lookup)
      qed
    qed
    have exact: "\<exists>data. map_of (index (toJSON s)) t = Some data \<and>
             dom data = ToString ` fst ` set fm \<and>
             (\<forall>f fi. Map_get fm f = Some fi \<longrightarrow>
                (\<exists>entry. data (ToString f) = Some entry \<and>
                   dom entry = ToString ` fst ` set fi \<and>
                   (\<forall>d. entry (ToString d) = Map_get fi d)))"
      if fm: "sm_get (s_index s) t = Some fm" for t fm
    proof -
      have fm': "map_of (s_index s) t = Some fm" using fm by (simp add: sm_get_def)
      have "map_of (index (toJSON s)) t = Some (serializedFields fm)"
        by (simp add: toJSON_lookup [OF kd(1)] fm')
      moreover have "dom (serializedFields fm) = ToString ` fst ` set fm"
        by (rule serializedFields_dom)
      moreover have "\<exists>entry. serializedFields fm (ToString f) = Some entry \<and>
                   dom entry = ToString ` fst ` set fi \<and>
                   (\<forall>d. entry (ToString d) = Map_get fi d)"
        if fi: "Map_get fm f = Some fi" for f fi
        using kd(2) [OF fm'] kd(3) [OF fm' fi]
        by (simp add: serializedFields_lookup fi fromEntries_dom fromEntries_lookup)
      ultimately show ?thesis by blast
    qed
    show ?thesis
      using dist post exact by blast
  qed
  show ?thesis
    using shape keys same order rest by blast
qed

theorem C6_toJSON_format_witness:
  "keys_distinct (s_index exampleLoaded) \<and>
   sm_get (s_index exampleLoaded) ''art'' = Some [(0, [(1, 2)])] \<and>
   Map_get [(0, [(1, 2)])] 0 = Some [(1, 2)] \<and>
   version (toJSON exampleLoaded) = 2 \<and>
   map fst (index (toJSON exampleLoaded)) = [''art'', ''zen''] \<and>
   serializedPosting (toJSON exampleLoaded) ''art'' 0 1 = Some 2 \<and>
   (\<exists>data entry. map_of (index (toJSON exampleLoaded)) ''art'' = Some data \<and>
      dom data = {''0''} \<and> data ''0'' = Some entry \<and> dom entry = {''1''} \<and> entry ''1'' = Some 2)"
proof -
  have idx: "s_index exampleLoaded = exampleDictionary"
    by (simp add: exampleLoaded_def)
  have kd: "keys_distinct (s_index exampleLoaded)"
    by (simp add: idx exampleDictionary_def keys_distinct_def)
  have art: "sm_get (s_index exampleLoaded) ''art'' = Some [(0, [(1, 2)])]"
    by (simp add: idx exampleDictionary_def sm_get_def)
  have f0: "Map_get [(0, [(1, 2)])] (0::int) = Some [(1::int, 2::int)]"
    by simp
  have ent: "sm_entries (s_index exampleLoaded) =
      [(''art'', [(0, [(1, 2)])]), (''zen'', [(0, [(1, 1), (2, 1)])])]"
    by (simp add: idx sm_entries_def exampleDictionary_def less_eq_char_def)
  have p: "posting (s_index exampleLoaded) ''art'' 0 1 = Some 2"
    by (simp add: idx exampleDictionary_def posting_def sm_get_def)
  have ts: "ToString 0 = ''0''" "ToString 1 = ''1''"
    by (simp_all add: ToString_def digits.simps char_of_def bit_Suc_0_iff)
  note c6 = C6_toJSON_format [of exampleLoaded]
  note keys = c6 [THEN conjunct2, THEN conjunct1]
  note rest = c6 [THEN conjunct2, THEN conjunct2, THEN conjunct2, THEN conjunct2, rule_format, OF kd]
  note post = rest [THEN conjunct2, THEN conjunct1, rule_format]
  note exact = rest [THEN conjunct2, THEN conjunct2, rule_format]
  have v: "version (toJSON exampleLoaded) = 2"
    by (simp add: toJSON_def Let_def)
  have k: "map fst (index (toJSON exampleLoaded)) = [''art'', ''zen'']"
    by (simp add: keys ent)
  have sp: "serializedPosting (toJSON exampleLoaded) ''art'' 0 1 = Some 2"
    by (simp add: post p)
  from exact [OF art] obtain data where d:
    "map_of (index (toJSON exampleLoaded)) ''art'' = Some data \<and>
     dom data = ToString ` fst ` set [(0::int, [(1::int, 2::int)])] \<and>
     (\<forall>f fi. Map_get [(0::int, [(1::int, 2::int)])] f = Some fi \<longrightarrow>
              (\<exists>entry. data (ToString f) = Some entry \<and>
                 dom entry = ToString ` fst ` set fi \<and>
                 (\<forall>d. entry (ToString d) = Map_get fi d)))" ..
  note data = d [THEN conjunct1] and dd = d [THEN conjunct2, THEN conjunct1]
    and inner = d [THEN conjunct2, THEN conjunct2, rule_format]
  from inner [OF f0] obtain entry where en:
    "data (ToString 0) = Some entry \<and>
     dom entry = ToString ` fst ` set [(1::int, 2::int)] \<and>
     (\<forall>d. entry (ToString d) = Map_get [(1::int, 2::int)] d)" ..
  note e = en [THEN conjunct1] and de = en [THEN conjunct2, THEN conjunct1]
    and ee = en [THEN conjunct2, THEN conjunct2, rule_format]
  have "data ''0'' = Some entry" using e by (simp add: ts)
  moreover have "dom entry = {''1''}" using de by (simp add: ts)
  moreover have "entry ''1'' = Some 2" using ee [of 1] by (simp add: ts)
  moreover have "dom data = {''0''}" using dd by (simp add: ts)
  ultimately have "\<exists>data entry. map_of (index (toJSON exampleLoaded)) ''art'' = Some data \<and>
      dom data = {''0''} \<and> data ''0'' = Some entry \<and> dom entry = {''1''} \<and> entry ''1'' = Some 2"
    using data by blast
  then show ?thesis using kd art f0 v k sp by simp
qed

section \<open>Search results\<close>

lemma fold_filter:
  "fold (\<lambda>(docId, r) results.
           if P (mk docId r) then results @ [mk docId r] else results) xs acc =
   acc @ filter P (map (\<lambda>(docId, r). mk docId r) xs)"
  by (induction xs arbitrary: acc) auto

lemma insertBy_byScore: "insertBy byScore x xs = insort_key (\<lambda>r. - score r) x xs"
  by (induction xs) (auto simp: byScore_def)

lemma Array_sort_byScore: "Array_sort byScore xs = sort_key (\<lambda>r. - score r) xs"
  by (induction xs) (simp_all add: Array_sort_def insertBy_byScore)



lemma search_eq:
  "search executeQuery idx q options =
     sort_key (\<lambda>res. - score res)
       (filter (\<lambda>res. case so_filter (case options of None \<Rightarrow> noSearchOptions | Some so \<Rightarrow> so) of
                        None \<Rightarrow> True | Some flt \<Rightarrow> flt res)
          (map (\<lambda>(docId, r). makeResult idx docId r)
             (executeQuery idx q (case options of None \<Rightarrow> noSearchOptions | Some so \<Rightarrow> so))))"
  using fold_filter [of "\<lambda>res. case so_filter (case options of None \<Rightarrow> noSearchOptions | Some so \<Rightarrow> so) of
                        None \<Rightarrow> True | Some flt \<Rightarrow> flt res" "makeResult idx"
      "executeQuery idx q (case options of None \<Rightarrow> noSearchOptions | Some so \<Rightarrow> so)" "[]"]
  by (simp add: search_def Let_def Array_sort_byScore)






text \<open>
  Claim C10. A call of \<^verbatim>\<open>search\<close> whose options argument is missing or has no filter
  returns one result for every entry of the combined results, none left out, whatever the
  index is: the default search options that the constructor stored in the index, a default
  filter among them, are not consulted.
\<close>

theorem C10_only_the_filter_of_the_call:
  assumes "case options of None \<Rightarrow> True | Some so \<Rightarrow> so_filter so = None"
  shows "mset (search executeQuery idx q options) =
       mset (map (\<lambda>(docId, r). makeResult idx docId r)
              (executeQuery idx q (case options of None \<Rightarrow> noSearchOptions | Some so \<Rightarrow> so))) \<and>
     length (search executeQuery idx q options) =
       length (executeQuery idx q (case options of None \<Rightarrow> noSearchOptions | Some so \<Rightarrow> so))"
proof -
  have "so_filter (case options of None \<Rightarrow> noSearchOptions | Some so \<Rightarrow> so) = None"
    using assms by (cases options) (simp_all add: noSearchOptions_def)
  then show ?thesis by (simp add: search_eq)
qed

theorem C10_only_the_filter_of_the_call_witness:
  "so_filter (noSearchOptions :: (string, unit) SearchOptions) = None \<and>
   (case o_searchOptions (s_options exampleFiltered) of
      None \<Rightarrow> False | Some so \<Rightarrow> so_filter so \<noteq> None) \<and>
   length (exampleQuery exampleFiltered ''zen'' noSearchOptions) = 2 \<and>
   length (search exampleQuery exampleFiltered ''zen'' (Some noSearchOptions)) = 2"
  using C10_only_the_filter_of_the_call
    [of "Some noSearchOptions" exampleQuery exampleFiltered "''zen''"]
  by (simp add: noSearchOptions_def exampleFiltered_def exampleQuery_def)

end
